theory Spec2Isabelle
  imports Main "HOL-Library.AList" "HOL-Library.Multiset" "HOL-Library.Sublist"
begin

section \<open>The state stream of \<^verbatim>\<open>shinysdr/web.py\<close>\<close>

subsection \<open>Values, messages and errors\<close>

text \<open>
  Objects (cells and blocks) are external to the registry and are known to it by identity
  only: an object is a natural number. The order of the naturals stands for the comparison
  Python applies to the objects in \<^verbatim>\<open>refs.sort()\<close>; the classes that would define it
  live in \<^verbatim>\<open>shinysdr.values\<close>.
\<close>

type_synonym objid = nat

text \<open>
  The values of cells and of commands are Python values of the types JSON has. A float is
  not-a-number, an infinity with its sign, or a sign, a mantissa and an exponent that stand
  for \<open>\<plusminus> mantissa * 2 ^ exponent\<close>. Not-a-number carries the identity of the float
  object: it is the one value unequal to itself, so it is the one value for which being the
  same object and being equal differ.
\<close>

datatype pyfloat = NaN nat | Inf bool | Finite bool nat int

datatype json =
    JNull
  | JBool bool
  | JInt int
  | JFloat pyfloat
  | JStr string
  | JList "json list"
  | JDict "(string \<times> json) list"

text \<open>
  Python's \<^verbatim>\<open>==\<close> on these values. Numbers are compared by what they denote, a
  \<^verbatim>\<open>bool\<close> being the integer 0 or 1, and not-a-number equals nothing. A list or a
  dictionary compares its elements with \<^verbatim>\<open>x is y or x == y\<close>
  (\<^verbatim>\<open>PyObject_RichCompareBool\<close>), a dictionary looking each of its keys up in the
  other. \<^verbatim>\<open>!=\<close> is the negation of \<^verbatim>\<open>==\<close> for each of these types.
\<close>

fun float_eq :: "pyfloat \<Rightarrow> pyfloat \<Rightarrow> bool" where
  "float_eq (Finite s m e) (Finite s' m' e') =
     (if m = 0 \<or> m' = 0 then m = m'
      else s = s' \<and> int m * 2 ^ nat (e - min e e') = int m' * 2 ^ nat (e' - min e e'))"
| "float_eq (Inf s) (Inf s') = (s = s')"
| "float_eq f f' = False"

fun number :: "json \<Rightarrow> pyfloat option" where
  "number (JBool b) = Some (Finite False (if b then 1 else 0) 0)"
| "number (JInt i) = Some (Finite (i < 0) (nat \<bar>i\<bar>) 0)"
| "number (JFloat f) = Some f"
| "number v = None"

fun same_object :: "json \<Rightarrow> json \<Rightarrow> bool" where
  "same_object (JFloat (NaN i)) (JFloat (NaN j)) = (i = j)"
| "same_object v w = False"

function (sequential) py_eq :: "json \<Rightarrow> json \<Rightarrow> bool"
  and py_eq_list :: "json list \<Rightarrow> json list \<Rightarrow> bool"
  and py_eq_dict :: "(string \<times> json) list \<Rightarrow> (string \<times> json) list \<Rightarrow> bool"
  and py_eq_entry :: "json \<Rightarrow> string \<Rightarrow> (string \<times> json) list \<Rightarrow> bool"
where
  "py_eq JNull w = (w = JNull)"
| "py_eq (JStr a) w = (w = JStr a)"
| "py_eq (JList vs) (JList ws) = py_eq_list vs ws"
| "py_eq (JList vs) w = False"
| "py_eq (JDict d) (JDict d') = (length d = length d' \<and> py_eq_dict d d')"
| "py_eq (JDict d) w = False"
| "py_eq v w =
     (case (number v, number w) of (Some a, Some b) \<Rightarrow> float_eq a b | _ \<Rightarrow> False)"
| "py_eq_list [] ws = (ws = [])"
| "py_eq_list (v # vs) [] = False"
| "py_eq_list (v # vs) (w # ws) = ((same_object v w \<or> py_eq v w) \<and> py_eq_list vs ws)"
| "py_eq_dict [] d' = True"
| "py_eq_dict ((k, v) # d) d' = (py_eq_entry v k d' \<and> py_eq_dict d d')"
| "py_eq_entry v k [] = False"
| "py_eq_entry v k ((k', w) # d') =
     (if k = k' then same_object v w \<or> py_eq v w else py_eq_entry v k d')"
  by pat_completeness auto

termination
  by (relation "measures [
      (\<lambda>x. case x of
          Inl (Inl (v, w)) \<Rightarrow> size v
        | Inl (Inr (vs, ws)) \<Rightarrow> size_list size vs
        | Inr (Inl (d, d')) \<Rightarrow> size_list (size_prod (\<lambda>_. 0) size) d
        | Inr (Inr (v, k, d')) \<Rightarrow> size v),
      (\<lambda>x. case x of
          Inl (Inl _) \<Rightarrow> 0
        | Inl (Inr _) \<Rightarrow> 0
        | Inr (Inl _) \<Rightarrow> 0
        | Inr (Inr (v, k, d')) \<Rightarrow> Suc (length d'))]") auto

text \<open>A dictionary is an association list in its iteration order.\<close>

type_synonym ('k, 'v) dict = "('k \<times> 'v) list"

text \<open>
  The two shapes of dictionary passed to \<^verbatim>\<open>set_previous\<close>: \<^verbatim>\<open>{u'value': v}\<close> for a
  scalar cell and a mapping from names to objects otherwise.
\<close>

datatype prev_value =
    Scalars "(string, json) dict"
  | Refs "(string, objid) dict"

datatype item = Val json | Obj objid

fun dict_items :: "prev_value \<Rightarrow> (string, item) dict" where
  "dict_items (Scalars d) = map (\<lambda>(k, v). (k, Val v)) d"
| "dict_items (Refs d) = map (\<lambda>(k, v). (k, Obj v)) d"

text \<open>
  \<^verbatim>\<open>==\<close> between what a previous value holds under a key and a scalar or an object. The
  objects are compared by identity, and an object equals no scalar.
\<close>

fun item_eq :: "item \<Rightarrow> item \<Rightarrow> bool" where
  "item_eq (Val v) (Val w) = py_eq v w"
| "item_eq (Obj x) (Obj y) = (x = y)"
| "item_eq i j = False"

text \<open>
  Python's \<^verbatim>\<open>==\<close> on dictionaries: the same keys with equal values, in any order. It is
  applied where the values of the left dictionary are objects, for which equal is identical.
\<close>

definition dict_eq :: "('k, 'v) dict \<Rightarrow> ('k, 'v) dict \<Rightarrow> bool" where
  "dict_eq d1 d2 =
     list_all (\<lambda>k. map_of d1 k = map_of d2 k) (map fst d1 @ map fst d2)"

text \<open>The tuples given to \<^verbatim>\<open>_send1\<close>, and the byte strings of the binary channel.\<close>

datatype msg =
    RegisterCell nat string json
  | RegisterBlock nat string "string list"
  | Register nat string
  | Value nat json
  | ValueSerial nat nat
  | ValueSerials nat "(string, nat) dict"
  | Delete nat
  | Done json
  | Bytes nat "nat list"

text \<open>
  What the \<^verbatim>\<open>send\<close> callback of the session has been called with:
  \<^verbatim>\<open>unicode(_serialize(batch))\<close> for a flushed batch, the value itself for a binary send.
\<close>

datatype frame = Serialized "msg list" | Direct msg

text \<open>
  The exceptions of the code, the \<^verbatim>\<open>Exception(...)\<close> ones by what they say.
  \<open>OutOfFuel\<close> is not one of them: it is the result of a registration that has used
  up the recursion depth it was given.
\<close>

datatype exn =
    KeyError
  | ValueError
  | TypeError
  | IndexError
  | AttributeError
  | StructError
  | PreviousValueNotRegistered
  | NotACell
  | StreamCellHere
  | IncingDeadReference
  | DecingDeadReference
  | SetFailed
  | OutOfFuel

subsection \<open>Registrations and the session\<close>

datatype listener = ListenBinaryStream | ListenCell | ListenState

datatype hook = HookNothing | HookListenCell | HookListenState

text \<open>A subscription handed out by the poller: the callback and whether it is still subscribed.\<close>

datatype subscription = Subscription listener bool

record registration =
  obj :: objid
  serial :: nat
  url :: string
  has_previous_value :: bool
  previous_value :: "prev_value option"
  value_is_references :: bool
  dead :: bool
  obj_is_cell :: bool
  poller_registration :: "subscription option"
  send_now_if_needed :: hook
  refcount :: int

text \<open>
  The session. Registration objects are shared between the two tables and are mutated in
  place, so they live in a store \<open>regs\<close>; the tables hold addresses. A registration is
  allocated at the address of its serial, which is new for each one. \<open>reactor_calls\<close>
  holds the delayed calls of \<^verbatim>\<open>_flush\<close> that the reactor has not run yet, \<open>batch_delay\<close>
  the handle the session keeps, \<open>sent\<close> the calls of the \<^verbatim>\<open>send\<close> callback so far.
\<close>

record ssi =
  regs :: "nat \<Rightarrow> registration"
  registered_objs :: "(objid, nat) dict"
  registered_serials :: "(nat, nat) dict"
  lastSerial :: nat
  send_batch :: "msg list"
  batch_delay :: "nat option"
  reactor_calls :: "nat list"
  next_call :: nat
  sent :: "frame list"
  log_msgs :: "string list"
  noteDirty_calls :: nat

subsection \<open>Batching: \<^verbatim>\<open>_flush\<close> and \<^verbatim>\<open>_send1\<close>\<close>

definition send :: "frame \<Rightarrow> ssi \<Rightarrow> ssi" where
  "send f s = s\<lparr>sent := sent s @ [f]\<rparr>"

definition flush :: "ssi \<Rightarrow> ssi" where
  "flush s =
     (let s1 = s\<lparr>batch_delay := None\<rparr>
      in if length (send_batch s1) > 0
         then (send (Serialized (send_batch s1)) s1)\<lparr>send_batch := []\<rparr>
         else s1)"

text \<open>\<^verbatim>\<open>the_reactor.callLater(0, self._flush)\<close>: a new pending call, whose handle is returned.\<close>

definition callLater :: "ssi \<Rightarrow> ssi \<times> nat" where
  "callLater s =
     (s\<lparr>reactor_calls := reactor_calls s @ [next_call s], next_call := next_call s + 1\<rparr>,
      next_call s)"

text \<open>\<^verbatim>\<open>DelayedCall.active()\<close>: neither run nor cancelled yet.\<close>

definition active :: "ssi \<Rightarrow> nat \<Rightarrow> bool" where
  "active s c = (c \<in> set (reactor_calls s))"

definition send1 :: "bool \<Rightarrow> msg \<Rightarrow> ssi \<Rightarrow> ssi" where
  "send1 binary v s =
     (if binary
      then send (Direct v) (flush s)
      else (let s1 = s\<lparr>send_batch := send_batch s @ [v]\<rparr>
            in if \<not> (batch_delay s1 \<noteq> None \<and> active s1 (the (batch_delay s1)))
               then (let (s2, c) = callLater s1 in s2\<lparr>batch_delay := Some c\<rparr>)
               else s1))"

text \<open>The reactor runs its oldest pending call.\<close>

definition reactor_run :: "ssi \<Rightarrow> ssi" where
  "reactor_run s =
     (case reactor_calls s of
        [] \<Rightarrow> s
      | c # cs \<Rightarrow> flush (s\<lparr>reactor_calls := cs\<rparr>))"

subsection \<open>Dictionaries\<close>

definition dict_contains :: "('k, 'v) dict \<Rightarrow> 'k \<Rightarrow> bool" where
  "dict_contains d k = (map_of d k \<noteq> None)"

definition dict_get :: "('k, 'v) dict \<Rightarrow> 'k \<Rightarrow> exn + 'v" where
  "dict_get d k = (case map_of d k of None \<Rightarrow> Inl KeyError | Some v \<Rightarrow> Inr v)"

definition dict_set :: "('k, 'v) dict \<Rightarrow> 'k \<Rightarrow> 'v \<Rightarrow> ('k, 'v) dict" where
  "dict_set d k v = AList.update k v d"

definition dict_del :: "('k, 'v) dict \<Rightarrow> 'k \<Rightarrow> exn + ('k, 'v) dict" where
  "dict_del d k = (if dict_contains d k then Inr (AList.delete k d) else Inl KeyError)"

subsection \<open>The methods of a registration\<close>

definition upd_reg :: "ssi \<Rightarrow> nat \<Rightarrow> (registration \<Rightarrow> registration) \<Rightarrow> ssi" where
  "upd_reg s a f = s\<lparr>regs := (regs s)(a := f (regs s a))\<rparr>"

text \<open>The values of a dictionary that are no registered object.\<close>

fun unregistered :: "ssi \<Rightarrow> prev_value \<Rightarrow> bool" where
  "unregistered s (Scalars d) = (d \<noteq> [])"
| "unregistered s (Refs d) = list_ex (\<lambda>x. \<not> dict_contains (registered_objs s) x) (map snd d)"

definition set_previous :: "ssi \<Rightarrow> nat \<Rightarrow> prev_value \<Rightarrow> bool \<Rightarrow> exn + ssi" where
  "set_previous s a v is_references =
     (if is_references \<and> unregistered s v then Inl PreviousValueNotRegistered
      else Inr (upd_reg s a (\<lambda>r. r\<lparr>has_previous_value := True, previous_value := Some v,
                                     value_is_references := is_references\<rparr>)))"

definition get_object_which_is_cell :: "ssi \<Rightarrow> nat \<Rightarrow> exn + objid" where
  "get_object_which_is_cell s a =
     (if \<not> obj_is_cell (regs s a) then Inl NotACell else Inr (obj (regs s a)))"

text \<open>\<^verbatim>\<open>drop\<close>: the subscription, if there is one, is ended.\<close>

fun unsubscribed :: "subscription option \<Rightarrow> subscription option" where
  "unsubscribed None = None"
| "unsubscribed (Some (Subscription l b)) = Some (Subscription l False)"

definition registration_drop :: "ssi \<Rightarrow> nat \<Rightarrow> ssi" where
  "registration_drop s a =
     upd_reg s a (\<lambda>r. r\<lparr>poller_registration := unsubscribed (poller_registration r)\<rparr>)"

definition inc_refcount :: "ssi \<Rightarrow> nat \<Rightarrow> exn + ssi" where
  "inc_refcount s a =
     (if dead (regs s a) then Inl IncingDeadReference
      else Inr (upd_reg s a (\<lambda>r. r\<lparr>refcount := refcount r + 1\<rparr>)))"

text \<open>\<^verbatim>\<open>StateStreamInner.__drop\<close> and \<^verbatim>\<open>do_delete\<close>.\<close>

definition ssi_drop :: "ssi \<Rightarrow> objid \<Rightarrow> exn + ssi" where
  "ssi_drop s x =
     (case dict_get (registered_objs s) x of
        Inl e \<Rightarrow> Inl e
      | Inr a \<Rightarrow>
          (let s1 = registration_drop s a
           in case dict_del (registered_serials s1) (serial (regs s1 a)) of
                Inl e \<Rightarrow> Inl e
              | Inr d \<Rightarrow>
                  (let s2 = s1\<lparr>registered_serials := d\<rparr>
                   in case dict_del (registered_objs s2) x of
                        Inl e \<Rightarrow> Inl e
                      | Inr d' \<Rightarrow> Inr (s2\<lparr>registered_objs := d'\<rparr>))))"

definition do_delete :: "ssi \<Rightarrow> nat \<Rightarrow> exn + ssi" where
  "do_delete s a =
     ssi_drop (send1 False (Delete (serial (regs s a))) s) (obj (regs s a))"

text \<open>
  ``capture refs to decrement'': the referenced objects in sorted order. A dictionary of
  scalars under \<^verbatim>\<open>value_is_references\<close> holds no key of the object table, so the
  loop over it raises at its first element.
\<close>

definition capture_refs :: "registration \<Rightarrow> exn + objid list" where
  "capture_refs r =
     (if value_is_references r
      then (case previous_value r of
              None \<Rightarrow> Inl AttributeError
            | Some (Refs d) \<Rightarrow> Inr (sort (map snd d))
            | Some (Scalars d) \<Rightarrow> (if d = [] then Inr [] else Inl KeyError))
      else Inr [])"

function dec_refcount_and_maybe_notify :: "ssi \<Rightarrow> nat \<Rightarrow> exn + ssi"
  and dec_refs :: "ssi \<Rightarrow> objid list \<Rightarrow> exn + ssi" where
  "dec_refcount_and_maybe_notify s a =
     (if dead (regs s a) then Inl DecingDeadReference
      else (let s1 = upd_reg s a (\<lambda>r. r\<lparr>refcount := refcount r - 1\<rparr>)
            in if refcount (regs s1 a) = 0
               then (case do_delete (upd_reg s1 a (\<lambda>r. r\<lparr>dead := True\<rparr>)) a of
                       Inl e \<Rightarrow> Inl e
                     | Inr s3 \<Rightarrow>
                         (case capture_refs (regs s3 a) of
                            Inl e \<Rightarrow> Inl e
                          | Inr refs \<Rightarrow>
                              dec_refs
                                (upd_reg s3 a (\<lambda>r. r\<lparr>previous_value := None,
                                    has_previous_value := False,
                                    value_is_references := False\<rparr>))
                                refs))
               else Inr s1))"
| "dec_refs s [] = Inr s"
| "dec_refs s (x # xs) =
     (case dict_get (registered_objs s) x of
        Inl e \<Rightarrow> Inl e
      | Inr b \<Rightarrow>
          (case dec_refcount_and_maybe_notify s b of
             Inl e \<Rightarrow> Inl e
           | Inr s' \<Rightarrow> dec_refs s' xs))"
  by pat_completeness auto

text \<open>
  Each finalization takes one entry out of the object table (or raises), which bounds the
  recursion.
\<close>

lemma registered_objs_upd_reg [simp]: "registered_objs (upd_reg s a f) = registered_objs s"
  by (simp add: upd_reg_def)

lemma registered_objs_send1 [simp]: "registered_objs (send1 b v s) = registered_objs s"
  by (simp add: send1_def send_def flush_def callLater_def Let_def split: prod.splits)

lemma registered_objs_registration_drop [simp]:
  "registered_objs (registration_drop s a) = registered_objs s"
  by (simp add: registration_drop_def)

lemma length_delete_less:
  assumes "dict_contains d k"
  shows "length (AList.delete k d) < length d"
proof -
  from assms obtain v where "map_of d k = Some v"
    by (auto simp add: dict_contains_def)
  then have "(k, v) \<in> set d"
    by (rule map_of_SomeD)
  then show ?thesis
    unfolding AList.delete_eq by (rule length_filter_less) simp
qed

lemma ssi_drop_length:
  "ssi_drop s x = Inr s' \<Longrightarrow> length (registered_objs s') < length (registered_objs s)"
  by (auto simp add: ssi_drop_def dict_del_def Let_def length_delete_less
      split: sum.splits if_splits)

lemma do_delete_length:
  "do_delete s a = Inr s' \<Longrightarrow> length (registered_objs s') < length (registered_objs s)"
  by (auto simp add: do_delete_def dest: ssi_drop_length)

lemma dec_length_partial:
  "dec_refcount_and_maybe_notify_dec_refs_dom (Inl (s, a)) \<Longrightarrow>
     dec_refcount_and_maybe_notify s a = Inr s' \<Longrightarrow>
     length (registered_objs s') \<le> length (registered_objs s)"
  "dec_refcount_and_maybe_notify_dec_refs_dom (Inr (s, xs)) \<Longrightarrow>
     dec_refs s xs = Inr s' \<Longrightarrow>
     length (registered_objs s') \<le> length (registered_objs s)"
proof (induction s a and s xs arbitrary: s' and s' rule: dec_refcount_and_maybe_notify_dec_refs.pinduct)
  case (1 s a)
  let ?s1 = "upd_reg s a (\<lambda>r. r\<lparr>refcount := refcount r - 1\<rparr>)"
  from "1.prems" "1.hyps" have live: "\<not> dead (regs s a)"
    by (auto simp add: dec_refcount_and_maybe_notify.psimps)
  show ?case
  proof (cases "refcount (regs ?s1 a) = 0")
    case False
    with "1.prems" "1.hyps" live have "s' = ?s1"
      by (simp add: dec_refcount_and_maybe_notify.psimps Let_def)
    then show ?thesis by simp
  next
    case True
    with "1.prems" "1.hyps" live obtain s3 refs where
      d: "do_delete (upd_reg ?s1 a (\<lambda>r. r\<lparr>dead := True\<rparr>)) a = Inr s3" and
      c: "capture_refs (regs s3 a) = Inr refs" and
      r: "dec_refs (upd_reg s3 a (\<lambda>r. r\<lparr>previous_value := None,
            has_previous_value := False, value_is_references := False\<rparr>)) refs = Inr s'"
      by (auto simp add: dec_refcount_and_maybe_notify.psimps Let_def split: sum.splits)
    from "1.IH"[OF live refl True d c r] do_delete_length[OF d]
    show ?thesis by simp
  qed
next
  case (2 s)
  then show ?case by (simp add: dec_refs.psimps)
next
  case (3 s x xs)
  from "3.prems" "3.hyps" show ?case
    apply (simp add: dec_refs.psimps split: sum.splits)
    subgoal for b s1
      using "3.IH"(1)[of b s1] "3.IH"(2)[of b s1 s'] by simp
    done
qed

termination dec_refcount_and_maybe_notify
proof (relation "measures [\<lambda>x. case x of Inl (s, a) \<Rightarrow> length (registered_objs s) | Inr (s, xs) \<Rightarrow> length (registered_objs s), \<lambda>x. case x of Inl (s, a) \<Rightarrow> 0 | Inr (s, xs) \<Rightarrow> Suc (length xs)]", goal_cases)
  case 1
  then show ?case by simp
next
  case (2 s a s1 s3 refs)
  then show ?case using do_delete_length[of _ a s3] by fastforce
next
  case (3 s x xs b)
  then show ?case by simp
next
  case (4 s x xs b s')
  then show ?case using dec_length_partial(1)[of s b s'] by auto
qed


subsection \<open>The observed objects\<close>

text \<open>
  What the registry reads of an object: the \<^verbatim>\<open>isinstance\<close> tests it makes, and the
  results of \<^verbatim>\<open>isBlock()\<close>, \<^verbatim>\<open>get()\<close> (a scalar, or a block for a block cell),
  \<^verbatim>\<open>state()\<close>, \<^verbatim>\<open>description()\<close> and \<^verbatim>\<open>_get_interfaces\<close>.
\<close>

record obj_info =
  is_BaseCell :: bool
  is_StreamCell :: bool
  is_ExportedState :: bool
  isBlock :: bool
  get_value :: json
  get_block :: objid
  state :: "(string, objid) dict"
  description :: json
  interfaces :: "string list"

type_synonym world = "objid \<Rightarrow> obj_info"

text \<open>
  The surroundings of a session: the objects, \<^verbatim>\<open>urllib.unquote\<close>,
  \<^verbatim>\<open>json.loads\<close>, and what \<^verbatim>\<open>cell.set(value)\<close> does to the objects.
\<close>

record env =
  objects :: world
  unquote :: "string \<Rightarrow> string"
  loads :: "string \<Rightarrow> exn + json"
  cell_set :: "world \<Rightarrow> objid \<Rightarrow> json \<Rightarrow> exn + world"

text \<open>\<^verbatim>\<open>_StateStreamObjectRegistration.__init__\<close>.\<close>

definition new_registration :: "world \<Rightarrow> objid \<Rightarrow> nat \<Rightarrow> string \<Rightarrow> int \<Rightarrow> registration" where
  "new_registration w x n u rc =
     \<lparr>obj = x, serial = n, url = u,
      has_previous_value = False, previous_value = None, value_is_references = False,
      dead = False,
      obj_is_cell = is_BaseCell (w x),
      poller_registration =
        Some (Subscription
          (if is_BaseCell (w x)
           then (if is_StreamCell (w x) then ListenBinaryStream else ListenCell)
           else ListenState) True),
      send_now_if_needed =
        (if is_BaseCell (w x)
         then (if is_StreamCell (w x) then HookNothing else HookListenCell)
         else HookListenState),
      refcount = rc\<rparr>"

text \<open>\<^verbatim>\<open>__maybesend\<close>.\<close>

definition differs_from_previous :: "registration \<Rightarrow> json \<Rightarrow> exn + bool" where
  "differs_from_previous r compare_value =
     (if \<not> has_previous_value r then Inr True
      else (case previous_value r of
              None \<Rightarrow> Inl TypeError
            | Some pv \<Rightarrow>
                (case dict_get (dict_items pv) ''value'' of
                   Inl e \<Rightarrow> Inl e
                 | Inr old \<Rightarrow> Inr (\<not> item_eq (Val compare_value) old))))"

definition maybesend :: "ssi \<Rightarrow> nat \<Rightarrow> json \<Rightarrow> json \<Rightarrow> exn + ssi" where
  "maybesend s a compare_value update_value =
     (case differs_from_previous (regs s a) compare_value of
        Inl e \<Rightarrow> Inl e
      | Inr differs \<Rightarrow>
          if differs
          then (case set_previous s a (Scalars [(''value'', compare_value)]) False of
                  Inl e \<Rightarrow> Inl e
                | Inr s1 \<Rightarrow> Inr (send1 False (Value (serial (regs s1 a)) update_value) s1))
          else Inr s)"

text \<open>
  \<^verbatim>\<open>__maybesend_reference\<close> after its registrations are made: the comparison with
  the previous value, the increments, the message, the release of the old references in
  sorted order, and the new previous value.
\<close>

fun inc_all :: "ssi \<Rightarrow> nat list \<Rightarrow> exn + ssi" where
  "inc_all s [] = Inr s"
| "inc_all s (a # as) =
     (case inc_refcount s a of Inl e \<Rightarrow> Inl e | Inr s' \<Rightarrow> inc_all s' as)"

fun release_refs :: "ssi \<Rightarrow> objid list \<Rightarrow> exn + ssi" where
  "release_refs s [] = Inr s"
| "release_refs s (x # xs) =
     (if \<not> dict_contains (registered_objs s) x then Inl PreviousValueNotRegistered
      else (case dict_get (registered_objs s) x of
              Inl e \<Rightarrow> Inl e
            | Inr b \<Rightarrow>
                (case dec_refcount_and_maybe_notify s b of
                   Inl e \<Rightarrow> Inl e
                 | Inr s' \<Rightarrow> release_refs s' xs)))"

definition release_previous :: "ssi \<Rightarrow> nat \<Rightarrow> exn + ssi" where
  "release_previous s a =
     (if has_previous_value (regs s a)
      then (case previous_value (regs s a) of
              None \<Rightarrow> Inl AttributeError
            | Some (Refs d) \<Rightarrow> release_refs s (sort (map snd d))
            | Some (Scalars d) \<Rightarrow> (if d = [] then Inr s else Inl PreviousValueNotRegistered))
      else Inr s)"

definition objs_differ :: "registration \<Rightarrow> (string, objid) dict \<Rightarrow> bool" where
  "objs_differ r objs =
     (\<not> has_previous_value r \<or>
      (case previous_value r of
         None \<Rightarrow> True
       | Some pv \<Rightarrow> \<not> dict_eq (dict_items (Refs objs)) (dict_items pv)))"

definition value_message :: "nat \<Rightarrow> (string, nat) dict \<Rightarrow> bool \<Rightarrow> exn + msg" where
  "value_message n serials is_single =
     (if is_single
      then (case dict_get serials ''value'' of
              Inl e \<Rightarrow> Inl e
            | Inr v \<Rightarrow> Inr (ValueSerial n v))
      else Inr (ValueSerials n serials))"

definition maybesend_reference_update ::
  "ssi \<Rightarrow> nat \<Rightarrow> (string, objid) dict \<Rightarrow> (string, nat) dict \<Rightarrow> bool \<Rightarrow> exn + ssi" where
  "maybesend_reference_update s a objs registrations is_single =
     (let serials = map (\<lambda>(k, v). (k, serial (regs s v))) registrations
      in if objs_differ (regs s a) objs
         then (case inc_all s (map snd registrations) of
                 Inl e \<Rightarrow> Inl e
               | Inr s1 \<Rightarrow>
                   (case value_message (serial (regs s1 a)) serials is_single of
                      Inl e \<Rightarrow> Inl e
                    | Inr m \<Rightarrow>
                        (case release_previous (send1 False m s1) a of
                           Inl e \<Rightarrow> Inl e
                         | Inr s3 \<Rightarrow> set_previous s3 a (Refs objs) True)))
         else Inr s)"

subsection \<open>Registration of objects\<close>

text \<open>
  \<^verbatim>\<open>_lookup_or_register\<close> for an object that is not registered yet, up to the call of
  \<^verbatim>\<open>send_now_if_needed\<close>: the new serial, the registration, the two tables and the
  message.
\<close>

definition register_new :: "world \<Rightarrow> ssi \<Rightarrow> objid \<Rightarrow> string \<Rightarrow> exn + ssi \<times> nat" where
  "register_new w s x u =
     (let n = lastSerial s + 1;
          s1 = s\<lparr>lastSerial := n\<rparr>;
          s2 = s1\<lparr>regs := (regs s1)(n := new_registration w x n u 0)\<rparr>;
          s3 = s2\<lparr>registered_objs := dict_set (registered_objs s2) x n\<rparr>;
          s4 = s3\<lparr>registered_serials := dict_set (registered_serials s3) n n\<rparr>
      in if is_BaseCell (w x)
         then (let s5 = send1 False (RegisterCell n u (description (w x))) s4
               in if is_StreamCell (w x) then Inr (s5, n)
                  else if \<not> isBlock (w x)
                  then (case set_previous s5 n (Scalars [(''value'', get_value (w x))]) False of
                          Inl e \<Rightarrow> Inl e
                        | Inr s6 \<Rightarrow> Inr (s6, n))
                  else Inr (s5, n))
         else if is_ExportedState (w x)
         then Inr (send1 False (RegisterBlock n u (interfaces (w x))) s4, n)
         else Inr (send1 False (Register n u) s4, n))"

text \<open>
  Registration follows the objects' references, which are not the registry's to bound: the
  first argument is the depth of nested registrations allowed, and a registration beyond it
  is \<open>OutOfFuel\<close>.
\<close>

function (sequential) lookup_or_register :: "nat \<Rightarrow> env \<Rightarrow> ssi \<Rightarrow> objid \<Rightarrow> string \<Rightarrow> exn + ssi \<times> nat"
  and call_send_now_if_needed :: "nat \<Rightarrow> env \<Rightarrow> ssi \<Rightarrow> nat \<Rightarrow> exn + ssi"
  and listen_cell :: "nat \<Rightarrow> env \<Rightarrow> ssi \<Rightarrow> nat \<Rightarrow> exn + ssi"
  and listen_state :: "nat \<Rightarrow> env \<Rightarrow> ssi \<Rightarrow> nat \<Rightarrow> (string, objid) dict \<Rightarrow> exn + ssi"
  and maybesend_reference ::
    "nat \<Rightarrow> env \<Rightarrow> ssi \<Rightarrow> nat \<Rightarrow> (string, objid) dict \<Rightarrow> bool \<Rightarrow> exn + ssi"
  and register_all ::
    "nat \<Rightarrow> env \<Rightarrow> ssi \<Rightarrow> string \<Rightarrow> (string, objid) dict \<Rightarrow> exn + ssi \<times> (string, nat) dict"
where
  "lookup_or_register 0 e s x u =
     (if dict_contains (registered_objs s) x
      then (case dict_get (registered_objs s) x of Inl err \<Rightarrow> Inl err | Inr a \<Rightarrow> Inr (s, a))
      else Inl OutOfFuel)"
| "lookup_or_register (Suc n) e s x u =
     (if dict_contains (registered_objs s) x
      then (case dict_get (registered_objs s) x of Inl err \<Rightarrow> Inl err | Inr a \<Rightarrow> Inr (s, a))
      else (case register_new (objects e) s x u of
              Inl err \<Rightarrow> Inl err
            | Inr (s1, a) \<Rightarrow>
                (case call_send_now_if_needed n e s1 a of
                   Inl err \<Rightarrow> Inl err
                 | Inr s2 \<Rightarrow> Inr (s2, a))))"
| "call_send_now_if_needed n e s a =
     (case send_now_if_needed (regs s a) of
        HookNothing \<Rightarrow> Inr s
      | HookListenCell \<Rightarrow> listen_cell n e s a
      | HookListenState \<Rightarrow> listen_state n e s a (state (objects e (obj (regs s a)))))"
| "listen_cell n e s a =
     (if dead (regs s a) then Inr s
      else if is_StreamCell (objects e (obj (regs s a))) then Inl StreamCellHere
      else if isBlock (objects e (obj (regs s a)))
      then (case lookup_or_register n e s (get_block (objects e (obj (regs s a))))
                   (url (regs s a)) of
              Inl err \<Rightarrow> Inl err
            | Inr (s1, b) \<Rightarrow>
                maybesend_reference n e s1 a
                  [(''value'', get_block (objects e (obj (regs s a))))] True)
      else maybesend s a (get_value (objects e (obj (regs s a))))
             (get_value (objects e (obj (regs s a)))))"
| "listen_state n e s a st =
     (if dead (regs s a) then Inr s else maybesend_reference n e s a st False)"
| "maybesend_reference n e s a objs is_single =
     (case register_all n e s (url (regs s a)) objs of
        Inl err \<Rightarrow> Inl err
      | Inr (s1, registrations) \<Rightarrow>
          maybesend_reference_update s1 a objs registrations is_single)"
| "register_all n e s u [] = Inr (s, [])"
| "register_all n e s u ((k, v) # kvs) =
     (case lookup_or_register n e s v (u @ ''/'' @ unquote e k) of
        Inl err \<Rightarrow> Inl err
      | Inr (s1, a) \<Rightarrow>
          (case register_all n e s1 u kvs of
             Inl err \<Rightarrow> Inl err
           | Inr (s2, regs_rest) \<Rightarrow> Inr (s2, (k, a) # regs_rest)))"

  by pat_completeness auto

termination
  by (relation "measures [
      (\<lambda>x. case x of
          Inl (Inl (n, _)) \<Rightarrow> n
        | Inl (Inr (Inl (n, _))) \<Rightarrow> n
        | Inl (Inr (Inr (n, _))) \<Rightarrow> n
        | Inr (Inl (n, _)) \<Rightarrow> n
        | Inr (Inr (Inl (n, _))) \<Rightarrow> n
        | Inr (Inr (Inr (n, _))) \<Rightarrow> n),
      (\<lambda>x. case x of
          Inl (Inl _) \<Rightarrow> 0
        | Inl (Inr (Inl _)) \<Rightarrow> 4
        | Inl (Inr (Inr _)) \<Rightarrow> 3
        | Inr (Inl _) \<Rightarrow> 3
        | Inr (Inr (Inl _)) \<Rightarrow> 2
        | Inr (Inr (Inr _)) \<Rightarrow> 1),
      (\<lambda>x. case x of
          Inr (Inr (Inr (n, e, s, u, kvs))) \<Rightarrow> length kvs
        | _ \<Rightarrow> 0)]") auto

text \<open>\<^verbatim>\<open>__listen_binary_stream\<close>; \<^verbatim>\<open>struct.pack('I', ...)\<close> takes 32 bits and
  raises \<^verbatim>\<open>struct.error\<close> beyond them.\<close>

definition listen_binary_stream :: "ssi \<Rightarrow> nat \<Rightarrow> nat list \<Rightarrow> exn + ssi" where
  "listen_binary_stream s a v =
     (if dead (regs s a) then Inr s
      else if serial (regs s a) < 2 ^ 32
      then Inr (send1 True (Bytes (serial (regs s a)) v) s)
      else Inl StructError)"

subsection \<open>The session\<close>

text \<open>
  \<^verbatim>\<open>StateStreamInner.__init__\<close>; \<open>c\<close> is the \<^verbatim>\<open>BlockCell\<close> made for the root
  object.
\<close>

definition StateStreamInner :: "nat \<Rightarrow> env \<Rightarrow> objid \<Rightarrow> string \<Rightarrow> exn + ssi" where
  "StateStreamInner n e c root_url =
     call_send_now_if_needed n e
       \<lparr>regs = (\<lambda>_. new_registration (objects e) c 0 root_url 0),
        registered_objs = [(c, 0)],
        registered_serials = [(0, 0)],
        lastSerial = 0,
        send_batch = [],
        batch_delay = None,
        reactor_calls = [],
        next_call = 0,
        sent = [],
        log_msgs = [],
        noteDirty_calls = 0\<rparr>
       0"

fun drop_each :: "ssi \<Rightarrow> objid list \<Rightarrow> exn + ssi" where
  "drop_each s [] = Inr s"
| "drop_each s (x # xs) =
     (case ssi_drop s x of Inl e \<Rightarrow> Inl e | Inr s' \<Rightarrow> drop_each s' xs)"

definition connectionLost :: "ssi \<Rightarrow> exn + ssi" where
  "connectionLost s = drop_each s (map fst (registered_objs s))"

text \<open>\<^verbatim>\<open>command[0]\<close> and the unpacking of a command into four names.\<close>

fun first_of :: "json \<Rightarrow> exn + json" where
  "first_of (JList []) = Inl IndexError"
| "first_of (JList (x # xs)) = Inr x"
| "first_of (JStr []) = Inl IndexError"
| "first_of (JStr (c # cs)) = Inr (JStr [c])"
| "first_of (JDict d) = Inl KeyError"
| "first_of v = Inl TypeError"

fun unpack4 :: "json \<Rightarrow> exn + json \<times> json \<times> json \<times> json" where
  "unpack4 (JList [a, b, c, d]) = Inr (a, b, c, d)"
| "unpack4 (JList xs) = Inl ValueError"
| "unpack4 (JStr [a, b, c, d]) = Inr (JStr [a], JStr [b], JStr [c], JStr [d])"
| "unpack4 (JStr cs) = Inl ValueError"
| "unpack4 (JDict d) =
     (case map fst d of
        [a, b, c, d] \<Rightarrow> Inr (JStr a, JStr b, JStr c, JStr d)
      | _ \<Rightarrow> Inl ValueError)"
| "unpack4 v = Inl TypeError"

text \<open>
  \<^verbatim>\<open>self.__registered_serials[serial]\<close> for a serial that came in as JSON: a number
  finds the key it is equal to.
\<close>

fun float_nat :: "pyfloat \<Rightarrow> nat option" where
  "float_nat (Finite s m e) =
     (if m = 0 then Some 0
      else if s then None
      else if 0 \<le> e then Some (m * 2 ^ nat e)
      else if 2 ^ nat (- e) dvd m then Some (m div 2 ^ nat (- e))
      else None)"
| "float_nat f = None"

fun serial_lookup :: "(nat, nat) dict \<Rightarrow> json \<Rightarrow> exn + nat" where
  "serial_lookup d (JInt i) = (if 0 \<le> i then dict_get d (nat i) else Inl KeyError)"
| "serial_lookup d (JBool b) = dict_get d (if b then 1 else 0)"
| "serial_lookup d (JFloat f) =
     (case float_nat f of None \<Rightarrow> Inl KeyError | Some n \<Rightarrow> dict_get d n)"
| "serial_lookup d (JList xs) = Inl TypeError"
| "serial_lookup d (JDict xs) = Inl TypeError"
| "serial_lookup d v = Inl KeyError"

definition dataReceived :: "nat \<Rightarrow> env \<Rightarrow> ssi \<Rightarrow> string \<Rightarrow> exn + env \<times> ssi" where
  "dataReceived n e s data =
     (case loads e data of
        Inl err \<Rightarrow> Inl err
      | Inr command \<Rightarrow>
          (case first_of command of
             Inl err \<Rightarrow> Inl err
           | Inr op \<Rightarrow>
               if op = JStr ''set''
               then (case unpack4 command of
                       Inl err \<Rightarrow> Inl err
                     | Inr (op', ser, v, message_id) \<Rightarrow>
                         (case serial_lookup (registered_serials s) ser of
                            Inl err \<Rightarrow> Inl err
                          | Inr a \<Rightarrow>
                              (case get_object_which_is_cell s a of
                                 Inl err \<Rightarrow> Inl err
                               | Inr cell \<Rightarrow>
                                   (case cell_set e (objects e) cell v of
                                      Inl err \<Rightarrow> Inl err
                                    | Inr w' \<Rightarrow>
                                        (let e' = e\<lparr>objects := w'\<rparr>
                                         in case call_send_now_if_needed n e' s a of
                                              Inl err \<Rightarrow> Inl err
                                            | Inr s1 \<Rightarrow>
                                                Inr (e',
                                                  (send1 False (Done message_id) s1)
                                                    \<lparr>log_msgs := log_msgs s1 @ [''set''],
                                                     noteDirty_calls := noteDirty_calls s1 + 1\<rparr>))))))
               else Inr (e, s\<lparr>log_msgs :=
                          log_msgs s @ [''Unrecognized state stream op received'']\<rparr>)))"

section \<open>Change detection and persistence\<close>

text \<open>
  The module \<^verbatim>\<open>shinysdr/i/persistence.py\<close>, the exported-state classes of
  \<^verbatim>\<open>shinysdr/values.py\<close> and the \<^verbatim>\<open>SubscriptionTester\<close> of
  \<^verbatim>\<open>shinysdr/test/testutil.py\<close> are not among the sources; only their test
  \<^verbatim>\<open>test_persistence.py\<close> is. Every definition of this section is therefore written
  from the specification.
\<close>

text \<open>
  Modelled from the spec: the cells and blocks that a detector observes (the classes of
  \<^verbatim>\<open>shinysdr.values\<close> are missing). A cell is a handle onto a scalar value, settable
  or not, or onto a nested block; a block maps names to cells.
\<close>

datatype cell = ValueCell bool json | BlockCell "(string \<times> cell) list"

type_synonym block = "(string \<times> cell) list"

text \<open>
  Modelled from the spec: the Snapshot of \<^verbatim>\<open>PersistenceChangeDetector\<close> (missing), ``a
  plain nested mapping mirroring a Block's cell names to either scalar values or nested
  Snapshots''.
\<close>

datatype snapshot = SValue json | SMap "(string \<times> snapshot) list"

primrec cell_snapshot :: "cell \<Rightarrow> snapshot" where
  "cell_snapshot (ValueCell w v) = SValue v"
| "cell_snapshot (BlockCell b) = SMap (map (map_prod id cell_snapshot) b)"

definition block_snapshot :: "block \<Rightarrow> snapshot" where
  "block_snapshot b = cell_snapshot (BlockCell b)"

text \<open>
  Modelled from the spec: the setter of a value cell reached through the named cells of
  nested blocks (the \<^verbatim>\<open>set\<close> of the missing cell classes, \<^verbatim>\<open>set_value\<close> of the test's
  specimen).
\<close>

fun set_value_at :: "string list \<Rightarrow> json \<Rightarrow> cell \<Rightarrow> cell" where
  "set_value_at [] v (ValueCell w u) = ValueCell w v"
| "set_value_at (k # ks) v (BlockCell b) =
     BlockCell (map (\<lambda>p. if fst p = k then (fst p, set_value_at ks v (snd p)) else p) b)"
| "set_value_at ks v c = c"

definition block_set :: "string list \<Rightarrow> json \<Rightarrow> block \<Rightarrow> block" where
  "block_set path v b = (case set_value_at path v (BlockCell b) of BlockCell b' \<Rightarrow> b' | _ \<Rightarrow> b)"

text \<open>
  Modelled from the spec: \<^verbatim>\<open>PersistenceChangeDetector\<close> (missing) with the poller that
  notifies it. The detector ``maintains one cached Snapshot''; the poller ``delivers a
  coalesced notification when a Cell's value changes \<dots> batched per scheduling tick'';
  \<open>calls\<close> counts the invocations of the callback.
\<close>

record change_detector =
  root :: block
  cached :: snapshot
  calls :: nat
  notification_pending :: bool

definition PersistenceChangeDetector :: "block \<Rightarrow> change_detector" where
  "PersistenceChangeDetector b =
     \<lparr>root = b, cached = block_snapshot b, calls = 0, notification_pending = False\<rparr>"

text \<open>Modelled from the spec: a mutation of a cell of the observed graph (missing setter).\<close>

definition set_value :: "string list \<Rightarrow> json \<Rightarrow> change_detector \<Rightarrow> change_detector" where
  "set_value path v d =
     d\<lparr>root := block_set path v (root d),
       notification_pending := (notification_pending d \<or> block_set path v (root d) \<noteq> root d)\<rparr>"

text \<open>
  Modelled from the spec: one notification cycle (\<^verbatim>\<open>SubscriptionTester.advance\<close>, missing)
  as the detector sees it: ``on every underlying notification \<dots> it recomputes the full
  Snapshot \<dots>; if the recomputed Snapshot differs (by full structural equality) from the
  cached one, replace the cache and invoke the callback exactly once'', the step running
  ``once per notification batch''.
\<close>

definition advance :: "change_detector \<Rightarrow> change_detector" where
  "advance d =
     (if notification_pending d
      then (if block_snapshot (root d) \<noteq> cached d
            then d\<lparr>cached := block_snapshot (root d), calls := calls d + 1,
                   notification_pending := False\<rparr>
            else d\<lparr>notification_pending := False\<rparr>)
      else d)"

text \<open>
  Modelled from the spec: \<^verbatim>\<open>PersistenceChangeDetector.get\<close> (missing), which ``returns
  the current cached Snapshot''.
\<close>

definition get :: "change_detector \<Rightarrow> snapshot" where
  "get d = cached d"

text \<open>
  Modelled from the spec: the start of \<^verbatim>\<open>PersistenceFileGlue\<close> (missing): ``merge
  defaults beneath it (persisted values win over defaults), and apply the merged mapping
  onto the root object's writable cells recursively (silently skip keys that do not
  correspond to a settable cell)''.
\<close>

fun merge_defaults :: "snapshot \<Rightarrow> snapshot \<Rightarrow> snapshot" where
  "merge_defaults (SMap defaults) (SMap persisted) =
     SMap (persisted @ filter (\<lambda>p. map_of persisted (fst p) = None) defaults)"
| "merge_defaults defaults persisted = persisted"

fun apply_state :: "snapshot \<Rightarrow> cell \<Rightarrow> cell" where
  "apply_state (SValue v) (ValueCell w u) = (if w then ValueCell w v else ValueCell w u)"
| "apply_state (SMap m) (BlockCell b) =
     BlockCell (map (\<lambda>p. case map_of m (fst p) of
                            None \<Rightarrow> p
                          | Some s \<Rightarrow> (fst p, apply_state s (snd p))) b)"
| "apply_state s c = c"

definition block_apply_state :: "snapshot \<Rightarrow> block \<Rightarrow> block" where
  "block_apply_state m b = (case apply_state m (BlockCell b) of BlockCell b' \<Rightarrow> b' | _ \<Rightarrow> b)"

text \<open>
  Modelled from the spec: \<^verbatim>\<open>PersistenceFileGlue\<close> (missing) with the file it persists
  to. \<open>state_file\<close> is the content of the file, if there is one; \<open>write_scheduled\<close> says that
  the delayed write is pending.
\<close>

record file_glue =
  detector :: change_detector
  write_scheduled :: bool
  state_file :: "snapshot option"

text \<open>
  Modelled from the spec: the constructor of \<^verbatim>\<open>PersistenceFileGlue\<close> (missing): ``read
  the persisted mapping from disk if present (missing file \<Rightarrow> empty mapping)'', merge and
  apply, ``then construct a Change Detector over the root object''. The defaults provider
  is given the existing snapshot or none.
\<close>

definition PersistenceFileGlue ::
  "snapshot option \<Rightarrow> block \<Rightarrow> (snapshot option \<Rightarrow> snapshot) \<Rightarrow> file_glue" where
  "PersistenceFileGlue f b get_defaults =
     (let persisted = (case f of None \<Rightarrow> SMap [] | Some m \<Rightarrow> m);
          merged = merge_defaults (get_defaults f) persisted
      in \<lparr>detector = PersistenceChangeDetector (block_apply_state merged b),
          write_scheduled = False, state_file = f\<rparr>)"

text \<open>
  Modelled from the spec: a notification cycle of the glue (missing): the detector's
  callback ``schedules a delayed write \<dots> if no write is already scheduled''.
\<close>

definition glue_advance :: "file_glue \<Rightarrow> file_glue" where
  "glue_advance g =
     (let d = advance (detector g)
      in g\<lparr>detector := d,
           write_scheduled := (write_scheduled g \<or> calls (detector g) < calls d)\<rparr>)"

text \<open>
  Modelled from the spec: the delayed write (missing), ``one write of the latest
  Snapshot'', the file being ``rewritten wholesale''.
\<close>

definition delayed_write :: "file_glue \<Rightarrow> file_glue" where
  "delayed_write g =
     (if write_scheduled g
      then g\<lparr>state_file := Some (get (detector g)), write_scheduled := False\<rparr>
      else g)"

text \<open>
  Modelled from the spec: waiting for \<^verbatim>\<open>PersistenceFileGlue.sync\<close> (missing) to resolve:
  it ``exposes a way to wait for the next scheduled write to complete'' and resolves ``only
  after the file has actually been rewritten''. The event loop delivers the pending
  notification and lets the delayed write fire; with no write scheduled there is nothing to
  resolve it, which is \<open>None\<close>.
\<close>

definition sync :: "file_glue \<Rightarrow> file_glue option" where
  "sync g =
     (let g1 = glue_advance g
      in if write_scheduled g1 then Some (delayed_write g1) else None)"

text \<open>
  Modelled from the spec: the specimen of the test, a block with a settable value cell and
  a cell holding a block (\<^verbatim>\<open>ValueAndBlockSpecimen\<close>, whose base class is missing).
\<close>

definition ValueAndBlockSpecimen :: "block \<Rightarrow> json \<Rightarrow> block" where
  "ValueAndBlockSpecimen b v = [(''value'', ValueCell True v), (''block'', BlockCell b)]"

definition no_defaults :: "snapshot option \<Rightarrow> snapshot" where
  "no_defaults f = SMap []"

text \<open>Modelled from the spec: a mutation of a cell while the glue observes the graph.\<close>

definition glue_set_value :: "string list \<Rightarrow> json \<Rightarrow> file_glue \<Rightarrow> file_glue" where
  "glue_set_value path v g = g\<lparr>detector := set_value path v (detector g)\<rparr>"

section \<open>Auxiliary notions\<close>

text \<open>
  What a release leaves alone: the batch only grows, nothing is sent, the tables only
  shrink, and a dead registration keeps all but its subscription.
\<close>

definition released :: "ssi \<Rightarrow> ssi \<Rightarrow> bool" where
  "released s s' =
     (prefix (send_batch s) (send_batch s')
      \<and> sent s' = sent s
      \<and> lastSerial s' = lastSerial s
      \<and> (\<forall>x. dict_contains (registered_objs s') x \<longrightarrow> dict_contains (registered_objs s) x)
      \<and> (\<forall>n. dict_contains (registered_serials s') n \<longrightarrow> dict_contains (registered_serials s) n)
      \<and> (\<forall>b. dead (regs s b) \<longrightarrow>
             regs s' b = (regs s b)\<lparr>poller_registration := poller_registration (regs s' b)\<rparr>))"

text \<open>
  What a drop leaves alone: nothing is batched, sent or scheduled, the registrations keep
  all but their subscriptions, which are as before or ended, and the serial table only
  shrinks.
\<close>

definition only_dropped :: "ssi \<Rightarrow> ssi \<Rightarrow> bool" where
  "only_dropped s s' =
     (send_batch s' = send_batch s \<and> sent s' = sent s
      \<and> reactor_calls s' = reactor_calls s \<and> batch_delay s' = batch_delay s
      \<and> lastSerial s' = lastSerial s
      \<and> (\<forall>b. regs s' b = (regs s b)\<lparr>poller_registration := poller_registration (regs s' b)\<rparr>)
      \<and> (\<forall>b. poller_registration (regs s' b) = poller_registration (regs s b)
             \<or> poller_registration (regs s' b) = unsubscribed (poller_registration (regs s b)))
      \<and> (\<forall>n. dict_contains (registered_serials s') n \<longrightarrow> dict_contains (registered_serials s) n))"

text \<open>
  The tables of a session agree when no object is registered twice, and the registrations
  of the object table have serials that differ and are keys of the serial table.
\<close>

definition tables_agree :: "ssi \<Rightarrow> bool" where
  "tables_agree s =
     (distinct (map fst (registered_objs s))
      \<and> distinct (map (\<lambda>p. serial (regs s (snd p))) (registered_objs s))
      \<and> list_all (\<lambda>p. dict_contains (registered_serials s) (serial (regs s (snd p))))
          (registered_objs s))"

text \<open>
  Two sessions that differ at most in the order in which the dictionaries of references
  kept as previous values iterate: the same dictionary (distinct keys) as another list.
\<close>

fun prev_same :: "prev_value option \<Rightarrow> prev_value option \<Rightarrow> bool" where
  "prev_same (Some (Refs d)) (Some (Refs d')) =
     (d = d' \<or> (mset d = mset d' \<and> distinct (map fst d)))"
| "prev_same p q = (p = q)"

definition same_up_to_order :: "ssi \<Rightarrow> ssi \<Rightarrow> bool" where
  "same_up_to_order s t =
     (t = s\<lparr>regs := regs t\<rparr>
      \<and> (\<forall>b. regs t b = (regs s b)\<lparr>previous_value := previous_value (regs t b)\<rparr>
             \<and> prev_same (previous_value (regs s b)) (previous_value (regs t b))))"









section \<open>Example sessions\<close>

definition example_cell_session :: ssi where
  "example_cell_session =
     \<lparr>regs = (\<lambda>_. \<lparr>obj = 5, serial = 1, url = ''u'', has_previous_value = True,
                  previous_value = Some (Scalars [(''value'', JInt 0)]),
                  value_is_references = False, dead = False, obj_is_cell = True,
                  poller_registration = None, send_now_if_needed = HookListenCell,
                  refcount = 1\<rparr>),
      registered_objs = [(5, 1)], registered_serials = [(1, 1)], lastSerial = 1,
      send_batch = [], batch_delay = None, reactor_calls = [], next_call = 0,
      sent = [], log_msgs = [], noteDirty_calls = 0\<rparr>"

text \<open>
  A block registered under serial 1 whose last sent state refers to two cells, objects 30
  and 20 in the dictionary's order, registered under serials 3 and 2; each of the three is
  referenced once.
\<close>

definition example_registration :: "objid \<Rightarrow> nat \<Rightarrow> registration" where
  "example_registration x n =
     \<lparr>obj = x, serial = n, url = ''u'', has_previous_value = False,
      previous_value = None, value_is_references = False, dead = False,
      obj_is_cell = True, poller_registration = Some (Subscription ListenCell True),
      send_now_if_needed = HookListenCell, refcount = 1\<rparr>"

definition example_block_session :: ssi where
  "example_block_session =
     \<lparr>regs = (\<lambda>n. if n = 1
                   then (example_registration 10 1)
                          \<lparr>has_previous_value := True,
                           previous_value := Some (Refs [(''b'', 30), (''a'', 20)]),
                           value_is_references := True, obj_is_cell := False,
                           poller_registration := Some (Subscription ListenState True),
                           send_now_if_needed := HookListenState\<rparr>
                   else if n = 2 then example_registration 20 2
                   else example_registration 30 3),
      registered_objs = [(10, 1), (30, 3), (20, 2)],
      registered_serials = [(1, 1), (3, 3), (2, 2)], lastSerial = 3,
      send_batch = [], batch_delay = None, reactor_calls = [], next_call = 0,
      sent = [], log_msgs = [], noteDirty_calls = 0\<rparr>"

text \<open>
  The objects of the examples: 1 is a block cell holding the block 10, whose state has the
  scalar cells 30 and 20 under the names b and a; 5 is a scalar cell as well.
\<close>

definition example_scalar_cell :: obj_info where
  "example_scalar_cell =
     \<lparr>is_BaseCell = True, is_StreamCell = False, is_ExportedState = False, isBlock = False,
      get_value = JInt 0, get_block = 0, state = [], description = JStr ''cell'',
      interfaces = []\<rparr>"

definition example_world :: world where
  "example_world x =
     (if x = 1 then example_scalar_cell\<lparr>isBlock := True, get_block := 10\<rparr>
      else if x = 10
      then example_scalar_cell\<lparr>is_BaseCell := False, is_ExportedState := True,
             state := [(''b'', 30), (''a'', 20)], interfaces := [''shinysdr.top.Top'']\<rparr>
      else example_scalar_cell)"

definition example_env :: env where
  "example_env =
     \<lparr>objects = example_world, unquote = (\<lambda>k. k),
      loads = (\<lambda>data. if data = ''[\"set\",99,1,7]''
                      then Inr (JList [JStr ''set'', JInt 99, JInt 1, JInt 7])
                      else if data = ''[\"set\",1,1,7]''
                      then Inr (JList [JStr ''set'', JInt 1, JInt 1, JInt 7])
                      else if data = ''[\"frob\"]'' then Inr (JList [JStr ''frob''])
                      else Inl ValueError),
      cell_set = (\<lambda>w c v. Inr (w(c := (w c)\<lparr>get_value := v\<rparr>)))\<rparr>"

text \<open>
  The session of the scalar cell when the value sent last is a float that is not-a-number,
  and objects in which the cell still holds that float.
\<close>

definition example_nan_session :: ssi where
  "example_nan_session =
     upd_reg example_cell_session 1
       (\<lambda>r. r\<lparr>previous_value := Some (Scalars [(''value'', JFloat (NaN 0))])\<rparr>)"

definition example_nan_env :: env where
  "example_nan_env =
     example_env\<lparr>objects :=
       example_world(5 := example_scalar_cell\<lparr>get_value := JFloat (NaN 0)\<rparr>)\<rparr>"



section \<open>What the basic operations leave alone\<close>

declare dec_refcount_and_maybe_notify.simps [simp del]

declare lookup_or_register.simps [simp del] call_send_now_if_needed.simps [simp del]
  listen_cell.simps [simp del] listen_state.simps [simp del]
  maybesend_reference.simps [simp del]

lemmas registration_simps =
  lookup_or_register.simps call_send_now_if_needed.simps listen_cell.simps
  listen_state.simps maybesend_reference.simps

lemma regs_upd_reg: "regs (upd_reg s a f) = (regs s)(a := f (regs s a))"
  by (simp add: upd_reg_def)

lemma upd_reg_frame [simp]:
  "send_batch (upd_reg s a f) = send_batch s"
  "sent (upd_reg s a f) = sent s"
  "registered_serials (upd_reg s a f) = registered_serials s"
  "lastSerial (upd_reg s a f) = lastSerial s"
  "reactor_calls (upd_reg s a f) = reactor_calls s"
  "batch_delay (upd_reg s a f) = batch_delay s"
  by (simp_all add: upd_reg_def)

lemma regs_send1: "regs (send1 b m s) = regs s"
  by (simp add: send1_def send_def flush_def callLater_def Let_def)

lemma send1_frame [simp]:
  "registered_serials (send1 b m s) = registered_serials s"
  "lastSerial (send1 b m s) = lastSerial s"
  by (simp_all add: send1_def send_def flush_def callLater_def Let_def)

lemma registration_drop_frame [simp]:
  "registered_serials (registration_drop s a) = registered_serials s"
  "send_batch (registration_drop s a) = send_batch s"
  "sent (registration_drop s a) = sent s"
  "lastSerial (registration_drop s a) = lastSerial s"
  "reactor_calls (registration_drop s a) = reactor_calls s"
  "batch_delay (registration_drop s a) = batch_delay s"
  by (simp_all add: registration_drop_def)

text \<open>The equations that evaluate the model on an example.\<close>

lemmas example_simps =
  example_cell_session_def example_block_session_def example_registration_def
  example_env_def example_world_def example_scalar_cell_def

lemmas evaluation_simps =
  registration_simps register_new_def new_registration_def maybesend_reference_update_def
  maybesend_def differs_from_previous_def objs_differ_def value_message_def
  release_previous_def set_previous_def inc_refcount_def upd_reg_def
  dec_refcount_and_maybe_notify.simps do_delete_def ssi_drop_def registration_drop_def
  capture_refs_def send1_def send_def flush_def callLater_def active_def
  dict_get_def dict_set_def dict_del_def dict_contains_def dict_eq_def AList.delete_eq
  Let_def

section \<open>Properties of the batching\<close>

lemma sent_flush:
  "sent (flush s) = sent s @ (if send_batch s = [] then [] else [Serialized (send_batch s)])"
  by (simp add: flush_def send_def Let_def)

lemma send_batch_flush: "send_batch (flush s) = []"
  by (simp add: flush_def send_def Let_def)

lemma sent_send1_False: "sent (send1 False v s) = sent s"
  by (simp add: send1_def callLater_def Let_def)

lemma send_batch_send1_False: "send_batch (send1 False v s) = send_batch s @ [v]"
  by (simp add: send1_def callLater_def Let_def)

text \<open>
  C5. A binary \<^verbatim>\<open>_send1\<close> first flushes the pending batch, as one serialized frame that
  holds every batched message in order (no frame when the batch is empty) and leaves the
  batch empty, and then hands the binary message to \<^verbatim>\<open>send\<close> at once: what the peer
  has received afterwards is what it had, then the batch, then the binary message. A
  non-binary \<^verbatim>\<open>_send1\<close> sends nothing and appends the message to the batch.
\<close>

theorem send1_binary_flushes_then_sends:
  "sent (send1 True v s) =
     sent s @ (if send_batch s = [] then [] else [Serialized (send_batch s)]) @ [Direct v]
   \<and> send_batch (send1 True v s) = []
   \<and> sent (send1 False v s) = sent s
   \<and> send_batch (send1 False v s) = send_batch s @ [v]"
  by (simp add: send1_def send_def sent_flush send_batch_flush callLater_def Let_def)

section \<open>Value changes of a scalar cell\<close>

lemma listen_cell_scalar:
  assumes "\<not> dead (regs s a)"
    and "\<not> is_StreamCell (objects e (obj (regs s a)))"
    and "\<not> isBlock (objects e (obj (regs s a)))"
  shows "listen_cell n e s a =
           maybesend s a (get_value (objects e (obj (regs s a))))
             (get_value (objects e (obj (regs s a))))"
  using assms by (simp add: listen_cell.simps)

lemma maybesend_same:
  assumes "has_previous_value (regs s a)"
    and "previous_value (regs s a) = Some pv"
    and "map_of (dict_items pv) ''value'' = Some old"
    and "item_eq (Val v) old"
  shows "maybesend s a v u = Inr s"
  using assms by (simp add: maybesend_def differs_from_previous_def dict_get_def)

lemma maybesend_changed:
  assumes "has_previous_value (regs s a)"
    and "previous_value (regs s a) = Some pv"
    and "map_of (dict_items pv) ''value'' = Some old"
    and "\<not> item_eq (Val v) old"
  shows "maybesend s a v u =
           Inr (send1 False (Value (serial (regs s a)) u)
                  (upd_reg s a (\<lambda>r. r\<lparr>has_previous_value := True,
                       previous_value := Some (Scalars [(''value'', v)]),
                       value_is_references := False\<rparr>)))"
  using assms
  by (auto simp add: maybesend_def differs_from_previous_def dict_get_def set_previous_def
      upd_reg_def)

text \<open>
  C3. A registration holds a previously sent value \<open>old\<close> under the key
  \<^verbatim>\<open>u'value'\<close>. Then \<^verbatim>\<open>__maybesend\<close> with the cell's value \<open>v\<close> returns, sends
  nothing at once, and appends \<^verbatim>\<open>('value', serial, v)\<close> to the batch if and only if
  \<open>v\<close> differs from \<open>old\<close> by Python's \<^verbatim>\<open>!=\<close>: with an equal value the session is
  left as it was, and with a different one \<open>v\<close> becomes the stored previous value. So a
  value that equals itself, set again, is not sent again, and neither is \<^verbatim>\<open>False\<close> over
  0, while a value that is unequal to itself, a float that is not-a-number, is.
  The notification of a live cell that is neither a stream nor a block
  (\<^verbatim>\<open>__listen_cell\<close>) is this call with the value the cell has.
\<close>

theorem maybesend_emits_iff_value_differs:
  assumes "has_previous_value (regs s a)"
    and "previous_value (regs s a) = Some pv"
    and "map_of (dict_items pv) ''value'' = Some old"
  shows "\<exists>s'. maybesend s a v v = Inr s'
           \<and> send_batch s' =
               send_batch s @
                 (if item_eq (Val v) old then [] else [Value (serial (regs s a)) v])
           \<and> sent s' = sent s
           \<and> (if item_eq (Val v) old then s' = s
               else has_previous_value (regs s' a)
                  \<and> previous_value (regs s' a) = Some (Scalars [(''value'', v)])
                  \<and> \<not> value_is_references (regs s' a))
           \<and> (old = Val v \<longrightarrow> (s' = s) = py_eq v v)
           \<and> (\<not> dead (regs s a) \<and> \<not> is_StreamCell (objects e (obj (regs s a)))
                \<and> \<not> isBlock (objects e (obj (regs s a)))
                \<and> get_value (objects e (obj (regs s a))) = v
              \<longrightarrow> listen_cell n e s a = Inr s')"
proof (cases "item_eq (Val v) old")
  case True
  with assms have "maybesend s a v v = Inr s"
    by (simp add: maybesend_same)
  with True show ?thesis
    by (auto simp add: listen_cell_scalar)
next
  case False
  let ?s' = "send1 False (Value (serial (regs s a)) v)
                  (upd_reg s a (\<lambda>r. r\<lparr>has_previous_value := True,
                       previous_value := Some (Scalars [(''value'', v)]),
                       value_is_references := False\<rparr>))"
  have m: "maybesend s a v v = Inr ?s'"
    by (rule maybesend_changed[OF assms False])
  have b: "send_batch ?s' = send_batch s @ [Value (serial (regs s a)) v]"
    by (simp add: send_batch_send1_False)
  then have ne: "?s' \<noteq> s"
    by (auto dest: arg_cong[where f = send_batch])
  have r: "regs ?s' a = (regs s a)\<lparr>has_previous_value := True,
             previous_value := Some (Scalars [(''value'', v)]),
             value_is_references := False\<rparr>"
    by (simp add: regs_send1 regs_upd_reg)
  from False have self: "old = Val v \<Longrightarrow> \<not> py_eq v v"
    by auto
  from m b ne r False self show ?thesis
    by (auto simp add: listen_cell_scalar sent_send1_False)
qed

text \<open>
  A cell of the example has the value 0 as its previous value: 7 is sent, and 0, \<^verbatim>\<open>False\<close>
  and \<^verbatim>\<open>0.0\<close> are not.
\<close>

theorem maybesend_emits_iff_value_differs_witness:
  "(\<exists>s'. maybesend example_cell_session 1 (JInt 7) (JInt 7) = Inr s'
        \<and> listen_cell 0
             (example_env\<lparr>objects := example_world(5 := example_scalar_cell\<lparr>get_value := JInt 7\<rparr>)\<rparr>)
             example_cell_session 1 = Inr s'
        \<and> send_batch s' = [Value 1 (JInt 7)]
        \<and> previous_value (regs s' 1) = Some (Scalars [(''value'', JInt 7)]))
   \<and> maybesend example_cell_session 1 (JInt 0) (JInt 0) = Inr example_cell_session
   \<and> listen_cell 0 example_env example_cell_session 1 = Inr example_cell_session
   \<and> maybesend example_cell_session 1 (JBool False) (JBool False) = Inr example_cell_session
   \<and> maybesend example_cell_session 1 (JFloat (Finite False 0 0)) (JFloat (Finite False 0 0)) =
       Inr example_cell_session"
  using maybesend_emits_iff_value_differs
    [where s = example_cell_session and a = 1 and pv = "Scalars [(''value'', JInt 0)]"
       and old = "Val (JInt 0)" and v = "JInt 7"
       and e = "example_env\<lparr>objects := example_world(5 := example_scalar_cell\<lparr>get_value := JInt 7\<rparr>)\<rparr>"
       and n = 0]
    maybesend_emits_iff_value_differs
    [where s = example_cell_session and a = 1 and pv = "Scalars [(''value'', JInt 0)]"
       and old = "Val (JInt 0)" and v = "JInt 0" and e = example_env and n = 0]
    maybesend_emits_iff_value_differs
    [where s = example_cell_session and a = 1 and pv = "Scalars [(''value'', JInt 0)]"
       and old = "Val (JInt 0)" and v = "JBool False" and e = example_env and n = 0]
    maybesend_emits_iff_value_differs
    [where s = example_cell_session and a = 1 and pv = "Scalars [(''value'', JInt 0)]"
       and old = "Val (JInt 0)" and v = "JFloat (Finite False 0 0)" and e = example_env
       and n = 0]
  by (auto simp add: example_cell_session_def example_env_def example_world_def
      example_scalar_cell_def)

text \<open>
  A cell whose value is a float that is not-a-number, sent before: the notification sends
  the same value again.
\<close>

theorem maybesend_resends_nan:
  "has_previous_value (regs example_nan_session 1)
   \<and> previous_value (regs example_nan_session 1) = Some (Scalars [(''value'', JFloat (NaN 0))])
   \<and> get_value (objects example_nan_env (obj (regs example_nan_session 1))) = JFloat (NaN 0)
   \<and> listen_cell 0 example_nan_env example_nan_session 1 =
       Inr (send1 False (Value 1 (JFloat (NaN 0))) example_nan_session)
   \<and> send_batch (send1 False (Value 1 (JFloat (NaN 0))) example_nan_session) =
       [Value 1 (JFloat (NaN 0))]"
  by (simp add: example_nan_session_def example_nan_env_def example_cell_session_def
      example_env_def example_world_def example_scalar_cell_def upd_reg_def
      listen_cell.simps maybesend_def differs_from_previous_def dict_get_def set_previous_def
      send1_def callLater_def active_def Let_def)

section \<open>Release of registrations\<close>

lemma dict_contains_delete: "dict_contains (AList.delete k d) k' = (k' \<noteq> k \<and> dict_contains d k')"
  by (auto simp add: dict_contains_def AList.delete_conv')

text \<open>What \<^verbatim>\<open>__drop\<close> does when the tables hold the object and the serial.\<close>

lemma ssi_drop_ok:
  assumes "map_of (registered_objs s) x = Some a"
    and "dict_contains (registered_serials s) (serial (regs s a))"
  shows "ssi_drop s x =
           Inr ((registration_drop s a)
                  \<lparr>registered_serials := AList.delete (serial (regs s a)) (registered_serials s),
                   registered_objs := AList.delete x (registered_objs s)\<rparr>)"
proof -
  have ser: "serial (regs (registration_drop s a) a) = serial (regs s a)"
    by (simp add: registration_drop_def upd_reg_def)
  have tab: "registered_serials (registration_drop s a) = registered_serials s"
    by (simp add: registration_drop_def)
  from assms show ?thesis
    by (simp add: ssi_drop_def dict_get_def dict_del_def dict_contains_def Let_def ser tab)
qed

lemma released_refl: "released s s"
  by (simp add: released_def)

lemma released_trans:
  assumes "released s1 s2" and "released s2 s3"
  shows "released s1 s3"
proof -
  have "regs s3 b = (regs s1 b)\<lparr>poller_registration := poller_registration (regs s3 b)\<rparr>"
    if d: "dead (regs s1 b)" for b
  proof -
    from assms(1) d have e2: "regs s2 b = (regs s1 b)\<lparr>poller_registration := poller_registration (regs s2 b)\<rparr>"
      by (simp add: released_def)
    then have "dead (regs s2 b) = dead (regs s1 b)"
      by (metis registration.select_convs(7) registration.surjective registration.update_convs(9))
    with d assms(2) have "regs s3 b = (regs s2 b)\<lparr>poller_registration := poller_registration (regs s3 b)\<rparr>"
      by (simp add: released_def)
    with e2 show ?thesis
      by (metis registration.update_convs(9) registration.surjective)
  qed
  with assms show ?thesis
    unfolding released_def by (auto intro: prefix_order.trans)
qed

lemma released_upd_reg_live:
  assumes "\<not> dead (regs s a)"
  shows "released s (upd_reg s a f)"
  using assms by (auto simp add: released_def upd_reg_def)

lemma released_send1_False: "released s (send1 False m s)"
  by (simp add: released_def send_batch_send1_False sent_send1_False regs_send1)

lemma released_registration_drop: "released s (registration_drop s a)"
  by (auto simp add: released_def registration_drop_def upd_reg_def)

lemma released_ssi_drop:
  assumes "ssi_drop s x = Inr s'"
  shows "released s s'"
proof -
  from assms obtain a where
    s': "s' = (registration_drop s a)
           \<lparr>registered_serials :=
              AList.delete (serial (regs (registration_drop s a) a))
                (registered_serials (registration_drop s a)),
            registered_objs := AList.delete x (registered_objs (registration_drop s a))\<rparr>"
    by (auto simp add: ssi_drop_def dict_del_def Let_def split: sum.splits if_splits)
  have "released (registration_drop s a) s'"
    unfolding s' by (simp add: released_def dict_contains_delete)
  with released_registration_drop[of s a] show ?thesis
    by (rule released_trans)
qed

lemma released_do_delete:
  assumes "do_delete s a = Inr s'"
  shows "released s s'"
  using assms released_send1_False released_ssi_drop released_trans
  unfolding do_delete_def by blast

lemma released_dec:
  "dec_refcount_and_maybe_notify s a = Inr s' \<Longrightarrow> released s s'"
  "dec_refs s xs = Inr s' \<Longrightarrow> released s s'"
proof (induction s a and s xs arbitrary: s' and s'
    rule: dec_refcount_and_maybe_notify_dec_refs.induct)
  case (1 s a)
  let ?s1 = "upd_reg s a (\<lambda>r. r\<lparr>refcount := refcount r - 1\<rparr>)"
  let ?s2 = "upd_reg ?s1 a (\<lambda>r. r\<lparr>dead := True\<rparr>)"
  note dec = dec_refcount_and_maybe_notify.simps[of s a]
  from "1.prems" have live: "\<not> dead (regs s a)"
    by (auto simp add: dec split: if_splits)
  have r1: "released s ?s1"
    using live by (rule released_upd_reg_live)
  show ?case
  proof (cases "refcount (regs ?s1 a) = 0")
    case False
    with "1.prems" live have "s' = ?s1"
      by (simp add: dec Let_def)
    with r1 show ?thesis by simp
  next
    case True
    with "1.prems" live obtain s3 refs where
      d: "do_delete ?s2 a = Inr s3" and
      c: "capture_refs (regs s3 a) = Inr refs" and
      r: "dec_refs (upd_reg s3 a (\<lambda>r. r\<lparr>previous_value := None,
            has_previous_value := False, value_is_references := False\<rparr>)) refs = Inr s'"
      by (auto simp add: dec Let_def split: sum.splits)
    have live1: "\<not> dead (regs ?s1 a)"
      using live by (simp add: upd_reg_def)
    have "regs ?s2 = (regs s)(a := (regs s a)\<lparr>refcount := refcount (regs s a) - 1, dead := True\<rparr>)"
      by (simp add: upd_reg_def)
    have r2: "released s ?s2"
      using live by (auto simp add: released_def upd_reg_def)
    have r3: "released ?s2 s3"
      using d by (rule released_do_delete)
    have r4: "released s s3"
      using r2 r3 by (rule released_trans)
    have r5: "released s (upd_reg s3 a (\<lambda>r. r\<lparr>previous_value := None,
            has_previous_value := False, value_is_references := False\<rparr>))"
      using r4 live by (auto simp add: released_def upd_reg_def)
    from "1.IH"[OF live refl True d c r] r5 show ?thesis
      by (rule released_trans[rotated])
  qed
next
  case (2 s)
  then show ?case by (simp add: released_refl)
next
  case (3 s x xs)
  from "3.prems" obtain b s1 where
    g: "dict_get (registered_objs s) x = Inr b" and
    d: "dec_refcount_and_maybe_notify s b = Inr s1" and
    r: "dec_refs s1 xs = Inr s'"
    by (auto split: sum.splits)
  from "3.IH"(1)[OF g d] "3.IH"(2)[OF g d r] show ?case
    by (rule released_trans)
qed

lemma released_dead_fields:
  assumes "released s s'" and "dead (regs s b)"
  shows "dead (regs s' b)"
    and "refcount (regs s' b) = refcount (regs s b)"
    and "previous_value (regs s' b) = previous_value (regs s b)"
    and "has_previous_value (regs s' b) = has_previous_value (regs s b)"
    and "value_is_references (regs s' b) = value_is_references (regs s b)"
proof -
  from assms have e:
    "regs s' b = (regs s b)\<lparr>poller_registration := poller_registration (regs s' b)\<rparr>"
    unfolding released_def by blast
  show "dead (regs s' b)"
    using arg_cong[OF e, of dead] assms(2) by simp
  show "refcount (regs s' b) = refcount (regs s b)"
    using arg_cong[OF e, of refcount] by simp
  show "previous_value (regs s' b) = previous_value (regs s b)"
    using arg_cong[OF e, of previous_value] by simp
  show "has_previous_value (regs s' b) = has_previous_value (regs s b)"
    using arg_cong[OF e, of has_previous_value] by simp
  show "value_is_references (regs s' b) = value_is_references (regs s b)"
    using arg_cong[OF e, of value_is_references] by simp
qed

lemma released_after_delete:
  assumes "released s1 s'" and "prefix (send_batch s @ [m]) (send_batch s1)"
  shows "prefix (send_batch s @ [m]) (send_batch s')"
  using assms unfolding released_def by (auto intro: prefix_order.trans)

text \<open>
  C1. A live registration at \<open>a\<close> is held by the session's tables (the object table
  has it for its object, the serial table has its serial) and its reference count is 1.
  Then \<^verbatim>\<open>dec_refcount_and_maybe_notify\<close> finalizes it within the call: the count is
  0, it is marked dead, \<^verbatim>\<open>('delete', serial)\<close> is appended to the batch, its subscription
  is ended, both tables lose it and its previous value is cleared; on the session so
  changed the call goes on with the decrements of the objects the previous value referred
  to, in sorted order, each through the object table and each finalizing in turn when it
  reaches 0 (\<open>dec_refs\<close>). When the call returns, the registration is still dead, cleared
  and out of both tables, and the batch is the old one, the delete message, and whatever the
  nested releases appended.
\<close>

theorem dec_refcount_to_zero_finalizes:
  assumes "\<not> dead (regs s a)"
    and "refcount (regs s a) = 1"
    and "map_of (registered_objs s) (obj (regs s a)) = Some a"
    and "dict_contains (registered_serials s) (serial (regs s a))"
    and "value_is_references (regs s a) \<Longrightarrow> previous_value (regs s a) = Some (Refs d)"
  shows "dec_refcount_and_maybe_notify s a =
           dec_refs
             ((send1 False (Delete (serial (regs s a))) s)
                \<lparr>regs := (regs s)(a := (regs s a)
                    \<lparr>refcount := 0, dead := True,
                     poller_registration :=
                       unsubscribed (poller_registration (regs s a)),
                     previous_value := None, has_previous_value := False,
                     value_is_references := False\<rparr>),
                 registered_serials := AList.delete (serial (regs s a)) (registered_serials s),
                 registered_objs := AList.delete (obj (regs s a)) (registered_objs s)\<rparr>)
             (if value_is_references (regs s a) then sort (map snd d) else [])
         \<and> (\<forall>s'. dec_refcount_and_maybe_notify s a = Inr s' \<longrightarrow>
                dead (regs s' a) \<and> refcount (regs s' a) = 0
              \<and> previous_value (regs s' a) = None \<and> \<not> has_previous_value (regs s' a)
              \<and> \<not> value_is_references (regs s' a)
              \<and> \<not> dict_contains (registered_objs s') (obj (regs s a))
              \<and> \<not> dict_contains (registered_serials s') (serial (regs s a))
              \<and> prefix (send_batch s @ [Delete (serial (regs s a))]) (send_batch s')
              \<and> sent s' = sent s)"
proof -
  let ?r = "regs s a"
  let ?s2 = "upd_reg (upd_reg s a (\<lambda>r. r\<lparr>refcount := refcount r - 1\<rparr>)) a (\<lambda>r. r\<lparr>dead := True\<rparr>)"
  let ?m = "Delete (serial ?r)"
  let ?sm = "send1 False ?m ?s2"
  let ?fin = "(send1 False ?m s)
                \<lparr>regs := (regs s)(a := ?r
                    \<lparr>refcount := 0, dead := True,
                     poller_registration :=
                       unsubscribed (poller_registration ?r),
                     previous_value := None, has_previous_value := False,
                     value_is_references := False\<rparr>),
                 registered_serials := AList.delete (serial ?r) (registered_serials s),
                 registered_objs := AList.delete (obj ?r) (registered_objs s)\<rparr>"
  let ?refs = "if value_is_references ?r then sort (map snd d) else []"
  have regs2: "regs ?s2 a = ?r\<lparr>refcount := 0, dead := True\<rparr>"
    using assms(2) by (simp add: upd_reg_def)
  have sm: "?sm = (send1 False ?m s)\<lparr>regs := (regs s)(a := ?r\<lparr>refcount := 0, dead := True\<rparr>)\<rparr>"
    using assms(2) by (simp add: send1_def upd_reg_def callLater_def active_def Let_def)
  have held: "map_of (registered_objs ?sm) (obj ?r) = Some a"
    using assms(3) by simp
  have ser: "dict_contains (registered_serials ?sm) (serial (regs ?sm a))"
    using assms(4) by (simp add: regs_send1 regs2)
  have dd: "do_delete ?s2 a =
      Inr ((registration_drop ?sm a)
             \<lparr>registered_serials := AList.delete (serial ?r) (registered_serials s),
              registered_objs := AList.delete (obj ?r) (registered_objs s)\<rparr>)"
    unfolding do_delete_def using ssi_drop_ok[OF _ ser, of "obj ?r"] held
    by (simp add: regs2 regs_send1)
  let ?s3 = "(registration_drop ?sm a)
             \<lparr>registered_serials := AList.delete (serial ?r) (registered_serials s),
              registered_objs := AList.delete (obj ?r) (registered_objs s)\<rparr>"
  have regs3: "regs ?s3 a = ?r\<lparr>refcount := 0, dead := True,
                     poller_registration :=
                       unsubscribed (poller_registration ?r)\<rparr>"
    by (simp add: registration_drop_def upd_reg_def regs_send1 assms(2))
  have cap: "capture_refs (regs ?s3 a) = Inr ?refs"
    using assms(5) unfolding regs3 by (simp add: capture_refs_def)
  have fin: "upd_reg ?s3 a (\<lambda>r. r\<lparr>previous_value := None,
            has_previous_value := False, value_is_references := False\<rparr>) = ?fin"
    unfolding sm by (simp add: registration_drop_def upd_reg_def regs_send1)
  have unfold: "dec_refcount_and_maybe_notify s a =
      (case do_delete ?s2 a of
         Inl e \<Rightarrow> Inl e
       | Inr s3 \<Rightarrow>
           (case capture_refs (regs s3 a) of
              Inl e \<Rightarrow> Inl e
            | Inr refs \<Rightarrow>
                dec_refs (upd_reg s3 a (\<lambda>r. r\<lparr>previous_value := None,
                  has_previous_value := False, value_is_references := False\<rparr>)) refs))"
    using assms(1) assms(2)
    by (subst dec_refcount_and_maybe_notify.simps) (simp add: Let_def regs_upd_reg)
  have eq: "dec_refcount_and_maybe_notify s a = dec_refs ?fin ?refs"
    unfolding unfold by (simp only: dd cap fin sum.case)
  have post: "dead (regs s' a) \<and> refcount (regs s' a) = 0
              \<and> previous_value (regs s' a) = None \<and> \<not> has_previous_value (regs s' a)
              \<and> \<not> value_is_references (regs s' a)
              \<and> \<not> dict_contains (registered_objs s') (obj ?r)
              \<and> \<not> dict_contains (registered_serials s') (serial ?r)
              \<and> prefix (send_batch s @ [?m]) (send_batch s')
              \<and> sent s' = sent s"
    if "dec_refcount_and_maybe_notify s a = Inr s'" for s'
  proof -
    from that eq have "dec_refs ?fin ?refs = Inr s'" by simp
    then have rel: "released ?fin s'" by (rule released_dec(2))
    have d: "dead (regs ?fin a)" by simp
    have f: "dead (regs s' a)" "refcount (regs s' a) = 0"
        "previous_value (regs s' a) = None" "\<not> has_previous_value (regs s' a)"
        "\<not> value_is_references (regs s' a)"
      using released_dead_fields[OF rel d] by simp_all
    have t: "\<not> dict_contains (registered_objs ?fin) (obj ?r)"
        "\<not> dict_contains (registered_serials ?fin) (serial ?r)"
      by (simp_all add: dict_contains_delete)
    have p: "prefix (send_batch s @ [?m]) (send_batch ?fin)"
      by (simp add: send_batch_send1_False)
    from rel t have t': "\<not> dict_contains (registered_objs s') (obj ?r)"
        "\<not> dict_contains (registered_serials s') (serial ?r)"
      unfolding released_def by blast+
    from rel have "sent s' = sent ?fin"
      unfolding released_def by blast
    then have "sent s' = sent s"
      by (simp add: sent_send1_False)
    with f t' released_after_delete[OF rel p] show ?thesis
      by simp
  qed
  from eq post show ?thesis by blast
qed

theorem dec_refcount_to_zero_finalizes_witness:
  "\<not> dead (regs example_block_session 1)
   \<and> refcount (regs example_block_session 1) = 1
   \<and> (\<exists>s'. dec_refcount_and_maybe_notify example_block_session 1 = Inr s'
          \<and> send_batch s' = [Delete 1, Delete 2, Delete 3]
          \<and> registered_objs s' = [] \<and> registered_serials s' = []
          \<and> dead (regs s' 1) \<and> dead (regs s' 2) \<and> dead (regs s' 3))"
  using dec_refcount_to_zero_finalizes
    [of example_block_session 1 "[(''b'', 30), (''a'', 20)]"]
  by (simp add: example_block_session_def example_registration_def Let_def upd_reg_def
      do_delete_def ssi_drop_def send1_def callLater_def active_def registration_drop_def
      dict_get_def dict_del_def dict_contains_def capture_refs_def AList.delete_eq
      dec_refcount_and_maybe_notify.simps)

section \<open>The end of a session\<close>

lemma unsubscribed_idem: "unsubscribed (unsubscribed p) = unsubscribed p"
  by (cases p rule: unsubscribed.cases) simp_all

lemma only_dropped_refl: "only_dropped s s"
  by (simp add: only_dropped_def)

lemma only_dropped_fields:
  assumes "only_dropped s s'"
  shows "serial (regs s' b) = serial (regs s b)"
    and "refcount (regs s' b) = refcount (regs s b)"
    and "dead (regs s' b) = dead (regs s b)"
    and "previous_value (regs s' b) = previous_value (regs s b)"
    and "obj (regs s' b) = obj (regs s b)"
proof -
  from assms have e:
    "regs s' b = (regs s b)\<lparr>poller_registration := poller_registration (regs s' b)\<rparr>"
    unfolding only_dropped_def by blast
  show "serial (regs s' b) = serial (regs s b)"
    using arg_cong[OF e, of serial] by simp
  show "refcount (regs s' b) = refcount (regs s b)"
    using arg_cong[OF e, of refcount] by simp
  show "dead (regs s' b) = dead (regs s b)"
    using arg_cong[OF e, of dead] by simp
  show "previous_value (regs s' b) = previous_value (regs s b)"
    using arg_cong[OF e, of previous_value] by simp
  show "obj (regs s' b) = obj (regs s b)"
    using arg_cong[OF e, of obj] by simp
qed

lemma only_dropped_trans:
  assumes "only_dropped s1 s2" and "only_dropped s2 s3"
  shows "only_dropped s1 s3"
proof -
  have r: "regs s3 b = (regs s1 b)\<lparr>poller_registration := poller_registration (regs s3 b)\<rparr>"
    for b
  proof -
    from assms(1) have e2:
      "regs s2 b = (regs s1 b)\<lparr>poller_registration := poller_registration (regs s2 b)\<rparr>"
      unfolding only_dropped_def by blast
    from assms(2) have e3:
      "regs s3 b = (regs s2 b)\<lparr>poller_registration := poller_registration (regs s3 b)\<rparr>"
      unfolding only_dropped_def by blast
    have "(regs s2 b)\<lparr>poller_registration := poller_registration (regs s3 b)\<rparr> =
          (regs s1 b)\<lparr>poller_registration := poller_registration (regs s3 b)\<rparr>"
      by (subst e2) simp
    with e3 show ?thesis by simp
  qed
  have p: "poller_registration (regs s3 b) = poller_registration (regs s1 b)
           \<or> poller_registration (regs s3 b) = unsubscribed (poller_registration (regs s1 b))"
    for b
  proof -
    from assms(1) have
      "poller_registration (regs s2 b) = poller_registration (regs s1 b)
       \<or> poller_registration (regs s2 b) = unsubscribed (poller_registration (regs s1 b))"
      unfolding only_dropped_def by blast
    moreover from assms(2) have
      "poller_registration (regs s3 b) = poller_registration (regs s2 b)
       \<or> poller_registration (regs s3 b) = unsubscribed (poller_registration (regs s2 b))"
      unfolding only_dropped_def by blast
    ultimately show ?thesis
      by (auto simp add: unsubscribed_idem)
  qed
  from assms have
    "send_batch s3 = send_batch s1" "sent s3 = sent s1" "reactor_calls s3 = reactor_calls s1"
    "batch_delay s3 = batch_delay s1" "lastSerial s3 = lastSerial s1"
    "\<forall>n. dict_contains (registered_serials s3) n \<longrightarrow> dict_contains (registered_serials s1) n"
    unfolding only_dropped_def by auto
  with r p show ?thesis
    unfolding only_dropped_def by blast
qed

lemma ssi_drop_result:
  assumes "ssi_drop s x = Inr s'"
  shows "\<exists>a. map_of (registered_objs s) x = Some a
           \<and> s' = (registration_drop s a)
                  \<lparr>registered_serials := AList.delete (serial (regs s a)) (registered_serials s),
                   registered_objs := AList.delete x (registered_objs s)\<rparr>"
proof -
  from assms obtain a where a: "map_of (registered_objs s) x = Some a"
    by (auto simp add: ssi_drop_def dict_get_def split: option.splits)
  have ser: "serial (regs (registration_drop s a) a) = serial (regs s a)"
    by (simp add: registration_drop_def upd_reg_def)
  from assms a show ?thesis
    by (auto simp add: ssi_drop_def dict_get_def dict_del_def Let_def ser
        split: if_splits)
qed

lemma only_dropped_ssi_drop:
  assumes "ssi_drop s x = Inr s'"
  shows "only_dropped s s'"
proof -
  from ssi_drop_result[OF assms] obtain a where
    s': "s' = (registration_drop s a)
           \<lparr>registered_serials := AList.delete (serial (regs s a)) (registered_serials s),
            registered_objs := AList.delete x (registered_objs s)\<rparr>"
    by blast
  show ?thesis
    unfolding s' only_dropped_def
    by (auto simp add: registration_drop_def upd_reg_def dict_contains_delete)
qed

lemma drop_each_only_dropped:
  "drop_each s xs = Inr s' \<Longrightarrow> only_dropped s s'"
proof (induction xs arbitrary: s)
  case Nil
  then show ?case by (simp add: only_dropped_refl)
next
  case (Cons x xs)
  from Cons.prems obtain s1 where
    d: "ssi_drop s x = Inr s1" and r: "drop_each s1 xs = Inr s'"
    by (auto split: sum.splits)
  from only_dropped_ssi_drop[OF d] Cons.IH[OF r] show ?case
    by (rule only_dropped_trans)
qed

lemma drop_each_objs:
  "drop_each s xs = Inr s' \<Longrightarrow>
     registered_objs s' = filter (\<lambda>p. fst p \<notin> set xs) (registered_objs s)"
proof (induction xs arbitrary: s)
  case Nil
  then show ?case by simp
next
  case (Cons x xs)
  from Cons.prems obtain s1 where
    d: "ssi_drop s x = Inr s1" and r: "drop_each s1 xs = Inr s'"
    by (auto split: sum.splits)
  from ssi_drop_result[OF d] have "registered_objs s1 = AList.delete x (registered_objs s)"
    by auto
  with Cons.IH[OF r] show ?case
    by (auto simp add: AList.delete_eq intro!: filter_cong)
qed

lemma drop_each_dropped:
  "drop_each s xs = Inr s' \<Longrightarrow> x \<in> set xs \<Longrightarrow> map_of (registered_objs s) x = Some a \<Longrightarrow>
     \<not> dict_contains (registered_serials s') (serial (regs s a))
     \<and> poller_registration (regs s' a) = unsubscribed (poller_registration (regs s a))"
proof (induction xs arbitrary: s)
  case Nil
  then show ?case by simp
next
  case (Cons y ys)
  from Cons.prems(1) obtain s1 where
    d: "ssi_drop s y = Inr s1" and r: "drop_each s1 ys = Inr s'"
    by (auto split: sum.splits)
  from ssi_drop_result[OF d] obtain b where
    b: "map_of (registered_objs s) y = Some b" and
    s1: "s1 = (registration_drop s b)
           \<lparr>registered_serials := AList.delete (serial (regs s b)) (registered_serials s),
            registered_objs := AList.delete y (registered_objs s)\<rparr>"
    by blast
  have od1: "only_dropped s s1" using d by (rule only_dropped_ssi_drop)
  have od2: "only_dropped s1 s'" using r by (rule drop_each_only_dropped)
  show ?case
  proof (cases "x = y")
    case True
    with b Cons.prems(3) have ab: "a = b" by simp
    have "\<not> dict_contains (registered_serials s1) (serial (regs s a))"
      unfolding s1 ab by (simp add: dict_contains_delete)
    with od2 have n: "\<not> dict_contains (registered_serials s') (serial (regs s a))"
      unfolding only_dropped_def by blast
    have p1: "poller_registration (regs s1 a) = unsubscribed (poller_registration (regs s a))"
      unfolding s1 ab by (simp add: registration_drop_def upd_reg_def)
    from od2 have
      "poller_registration (regs s' a) = poller_registration (regs s1 a)
       \<or> poller_registration (regs s' a) = unsubscribed (poller_registration (regs s1 a))"
      unfolding only_dropped_def by blast
    with p1 have "poller_registration (regs s' a) = unsubscribed (poller_registration (regs s a))"
      by (auto simp add: unsubscribed_idem)
    with n show ?thesis by simp
  next
    case False
    with Cons.prems(2) have xin: "x \<in> set ys" by simp
    from False Cons.prems(3) have m1: "map_of (registered_objs s1) x = Some a"
      unfolding s1 by (simp add: AList.delete_conv')
    from Cons.IH[OF r xin m1] have
      n: "\<not> dict_contains (registered_serials s') (serial (regs s1 a))" and
      p: "poller_registration (regs s' a) = unsubscribed (poller_registration (regs s1 a))"
      by simp_all
    from od1 have
      "poller_registration (regs s1 a) = poller_registration (regs s a)
       \<or> poller_registration (regs s1 a) = unsubscribed (poller_registration (regs s a))"
      unfolding only_dropped_def by blast
    with p have "poller_registration (regs s' a) = unsubscribed (poller_registration (regs s a))"
      by (auto simp add: unsubscribed_idem)
    with n only_dropped_fields(1)[OF od1, of a] show ?thesis by simp
  qed
qed

lemma drop_each_returns:
  assumes "distinct xs"
    and "\<forall>x\<in>set xs. \<exists>a. map_of (registered_objs s) x = Some a
           \<and> dict_contains (registered_serials s) (serial (regs s a))"
    and "\<forall>x\<in>set xs. \<forall>y\<in>set xs. \<forall>a b.
           map_of (registered_objs s) x = Some a \<longrightarrow> map_of (registered_objs s) y = Some b \<longrightarrow>
           serial (regs s a) = serial (regs s b) \<longrightarrow> x = y"
  shows "\<exists>s'. drop_each s xs = Inr s'"
  using assms
proof (induction xs arbitrary: s)
  case Nil
  then show ?case by simp
next
  case (Cons x xs)
  from Cons.prems(2) obtain a where
    a: "map_of (registered_objs s) x = Some a" and
    c: "dict_contains (registered_serials s) (serial (regs s a))"
    by auto
  let ?s1 = "(registration_drop s a)
                  \<lparr>registered_serials := AList.delete (serial (regs s a)) (registered_serials s),
                   registered_objs := AList.delete x (registered_objs s)\<rparr>"
  have d: "ssi_drop s x = Inr ?s1"
    using a c by (rule ssi_drop_ok)
  have ser: "serial (regs ?s1 b) = serial (regs s b)" for b
    by (simp add: registration_drop_def upd_reg_def)
  have m: "map_of (registered_objs ?s1) y = map_of (registered_objs s) y" if "y \<in> set xs" for y
    using that Cons.prems(1) by (auto simp add: AList.delete_conv')
  have p2: "\<forall>y\<in>set xs. \<exists>b. map_of (registered_objs ?s1) y = Some b
           \<and> dict_contains (registered_serials ?s1) (serial (regs ?s1 b))"
  proof
    fix y assume y: "y \<in> set xs"
    with Cons.prems(2) obtain b where
      b: "map_of (registered_objs s) y = Some b" and
      cb: "dict_contains (registered_serials s) (serial (regs s b))"
      by auto
    from y Cons.prems(1) have "x \<noteq> y" by auto
    with Cons.prems(3) a b y have "serial (regs s b) \<noteq> serial (regs s a)"
      by (metis list.set_intros(1) list.set_intros(2))
    with b cb m[OF y] show "\<exists>b. map_of (registered_objs ?s1) y = Some b
           \<and> dict_contains (registered_serials ?s1) (serial (regs ?s1 b))"
      unfolding ser by (simp add: dict_contains_delete)
  qed
  have p3: "\<forall>y\<in>set xs. \<forall>z\<in>set xs. \<forall>a b.
           map_of (registered_objs ?s1) y = Some a \<longrightarrow> map_of (registered_objs ?s1) z = Some b \<longrightarrow>
           serial (regs ?s1 a) = serial (regs ?s1 b) \<longrightarrow> y = z"
    unfolding ser using Cons.prems(3) m by (metis list.set_intros(2))
  from Cons.prems(1) have "distinct xs" by simp
  from Cons.IH[OF this p2 p3] d show ?case by simp
qed

lemma connectionLost_returns:
  assumes "tables_agree s"
  shows "\<exists>s'. connectionLost s = Inr s'"
proof -
  let ?d = "registered_objs s"
  from assms have dk: "distinct (map fst ?d)"
    and ds: "distinct (map (\<lambda>p. serial (regs s (snd p))) ?d)"
    and la: "list_all (\<lambda>p. dict_contains (registered_serials s) (serial (regs s (snd p)))) ?d"
    unfolding tables_agree_def by simp_all
  have mem: "(x, a) \<in> set ?d" if "map_of ?d x = Some a" for x a
    using that by (rule map_of_SomeD)
  have p2: "\<forall>x\<in>set (map fst ?d). \<exists>a. map_of ?d x = Some a
           \<and> dict_contains (registered_serials s) (serial (regs s a))"
  proof
    fix x assume "x \<in> set (map fst ?d)"
    then obtain a where a: "map_of ?d x = Some a"
      by (metis map_of_eq_None_iff not_Some_eq set_map)
    from mem[OF a] la have "dict_contains (registered_serials s) (serial (regs s a))"
      by (auto simp add: list_all_iff)
    with a show "\<exists>a. map_of ?d x = Some a
           \<and> dict_contains (registered_serials s) (serial (regs s a))"
      by blast
  qed
  have inj: "inj_on (\<lambda>p. serial (regs s (snd p))) (set ?d)"
    using ds by (simp add: distinct_map)
  have p3: "\<forall>x\<in>set (map fst ?d). \<forall>y\<in>set (map fst ?d). \<forall>a b.
           map_of ?d x = Some a \<longrightarrow> map_of ?d y = Some b \<longrightarrow>
           serial (regs s a) = serial (regs s b) \<longrightarrow> x = y"
  proof (intro ballI allI impI)
    fix x y a b
    assume a: "map_of ?d x = Some a" and b: "map_of ?d y = Some b"
      and e: "serial (regs s a) = serial (regs s b)"
    from e have "serial (regs s (snd (x, a))) = serial (regs s (snd (y, b)))"
      by simp
    then have "(x, a) = (y, b)"
      by (rule inj_onD[OF inj _ mem[OF a] mem[OF b]])
    then show "x = y" by simp
  qed
  from drop_each_returns[OF dk p2 p3] show ?thesis
    by (simp add: connectionLost_def)
qed

lemma dec_without_zero:
  assumes "refcount (regs s a) \<noteq> 1" and "dec_refcount_and_maybe_notify s a = Inr s'"
  shows "s' = upd_reg s a (\<lambda>r. r\<lparr>refcount := refcount r - 1\<rparr>)"
  using assms
  by (simp add: dec_refcount_and_maybe_notify.simps[of s a] Let_def regs_upd_reg
      split: if_splits)

text \<open>
  C10. When \<^verbatim>\<open>connectionLost\<close> returns, the object table is empty; every registration
  the object table held has its subscription ended and its serial out of the serial table;
  no registration has changed in anything but its subscription, so no reference count was
  decremented and none was marked dead; and nothing was batched, sent or scheduled. It does
  return when the tables agree. A \<^verbatim>\<open>delete\<close> message comes from
  \<^verbatim>\<open>dec_refcount_and_maybe_notify\<close> alone, and a decrement that does not reach zero does
  nothing but decrement.
\<close>

theorem connectionLost_drops_every_registration:
  "(tables_agree s \<longrightarrow> (\<exists>s'. connectionLost s = Inr s'))
   \<and> (\<forall>s'. connectionLost s = Inr s' \<longrightarrow>
         registered_objs s' = []
       \<and> (\<forall>x a. map_of (registered_objs s) x = Some a \<longrightarrow>
             \<not> dict_contains (registered_serials s') (serial (regs s a))
           \<and> poller_registration (regs s' a) = unsubscribed (poller_registration (regs s a)))
       \<and> (\<forall>b. regs s' b = (regs s b)\<lparr>poller_registration := poller_registration (regs s' b)\<rparr>
              \<and> refcount (regs s' b) = refcount (regs s b)
              \<and> dead (regs s' b) = dead (regs s b))
       \<and> send_batch s' = send_batch s \<and> sent s' = sent s
       \<and> reactor_calls s' = reactor_calls s)
   \<and> (\<forall>a s'. refcount (regs s a) \<noteq> 1 \<longrightarrow> dec_refcount_and_maybe_notify s a = Inr s' \<longrightarrow>
         send_batch s' = send_batch s \<and> registered_objs s' = registered_objs s)"
proof (intro conjI allI impI)
  assume "tables_agree s"
  then show "\<exists>s'. connectionLost s = Inr s'"
    by (rule connectionLost_returns)
next
  fix s' assume c: "connectionLost s = Inr s'"
  then have d: "drop_each s (map fst (registered_objs s)) = Inr s'"
    by (simp add: connectionLost_def)
  from drop_each_objs[OF d] show "registered_objs s' = []"
    by (simp add: filter_empty_conv)
  have od: "only_dropped s s'"
    using d by (rule drop_each_only_dropped)
  then show "send_batch s' = send_batch s" "sent s' = sent s"
    "reactor_calls s' = reactor_calls s"
    unfolding only_dropped_def by simp_all
  fix b
  from od show "regs s' b = (regs s b)\<lparr>poller_registration := poller_registration (regs s' b)\<rparr>"
    unfolding only_dropped_def by blast
  from only_dropped_fields[OF od, of b]
  show "refcount (regs s' b) = refcount (regs s b)" "dead (regs s' b) = dead (regs s b)"
    by simp_all
next
  fix s' x a
  assume c: "connectionLost s = Inr s'" and m: "map_of (registered_objs s) x = Some a"
  then have d: "drop_each s (map fst (registered_objs s)) = Inr s'"
    by (simp add: connectionLost_def)
  from m have "x \<in> set (map fst (registered_objs s))"
    by (metis map_of_eq_None_iff option.distinct(1) set_map)
  from drop_each_dropped[OF d this m]
  show "\<not> dict_contains (registered_serials s') (serial (regs s a))"
    "poller_registration (regs s' a) = unsubscribed (poller_registration (regs s a))"
    by simp_all
next
  fix a s'
  assume "refcount (regs s a) \<noteq> 1" and "dec_refcount_and_maybe_notify s a = Inr s'"
  then have "s' = upd_reg s a (\<lambda>r. r\<lparr>refcount := refcount r - 1\<rparr>)"
    by (rule dec_without_zero)
  then show "send_batch s' = send_batch s" "registered_objs s' = registered_objs s"
    by simp_all
qed

theorem connectionLost_drops_every_registration_witness:
  "tables_agree example_block_session
   \<and> (\<exists>s'. connectionLost example_block_session = Inr s'
          \<and> registered_objs s' = [] \<and> registered_serials s' = [] \<and> send_batch s' = []
          \<and> refcount (regs s' 1) = 1 \<and> \<not> dead (regs s' 1)
          \<and> poller_registration (regs s' 1) = Some (Subscription ListenState False))"
  using connectionLost_drops_every_registration [of example_block_session]
  by (simp add: example_block_session_def example_registration_def tables_agree_def
      connectionLost_def ssi_drop_def registration_drop_def upd_reg_def
      dict_get_def dict_del_def dict_contains_def AList.delete_eq Let_def)

section \<open>Registration\<close>

lemma update_absent:
  "map_of d k = None \<Longrightarrow> AList.update k v d = d @ [(k, v)]"
  by (induction d) (auto split: if_splits)

text \<open>The message of a registration, by the kind of the object.\<close>

lemma register_new_result:
  assumes "\<not> dict_contains (registered_objs s) x"
  shows "\<exists>s1. register_new w s x u = Inr (s1, lastSerial s + 1)
           \<and> lastSerial s1 = lastSerial s + 1
           \<and> obj (regs s1 (lastSerial s + 1)) = x
           \<and> serial (regs s1 (lastSerial s + 1)) = lastSerial s + 1
           \<and> url (regs s1 (lastSerial s + 1)) = u
           \<and> refcount (regs s1 (lastSerial s + 1)) = 0
           \<and> \<not> dead (regs s1 (lastSerial s + 1))
           \<and> send_now_if_needed (regs s1 (lastSerial s + 1)) =
               send_now_if_needed (new_registration w x (lastSerial s + 1) u 0)
           \<and> (\<forall>b. b \<noteq> lastSerial s + 1 \<longrightarrow> regs s1 b = regs s b)
           \<and> registered_objs s1 = registered_objs s @ [(x, lastSerial s + 1)]
           \<and> map_of (registered_serials s1) =
               (map_of (registered_serials s))(lastSerial s + 1 \<mapsto> lastSerial s + 1)
           \<and> send_batch s1 = send_batch s @
               [if is_BaseCell (w x) then RegisterCell (lastSerial s + 1) u (description (w x))
                else if is_ExportedState (w x)
                then RegisterBlock (lastSerial s + 1) u (interfaces (w x))
                else Register (lastSerial s + 1) u]
           \<and> sent s1 = sent s"
proof -
  from assms have n: "map_of (registered_objs s) x = None"
    by (simp add: dict_contains_def)
  show ?thesis
    by (simp add: register_new_def Let_def dict_set_def update_absent[OF n] update_conv'
        set_previous_def upd_reg_def regs_send1 send_batch_send1_False sent_send1_False
        new_registration_def)
qed

subsection \<open>Serials only grow\<close>

lemma set_previous_lastSerial:
  "set_previous s a v r = Inr s' \<Longrightarrow> lastSerial s' = lastSerial s"
  by (auto simp add: set_previous_def split: if_splits)

lemma inc_all_lastSerial:
  "inc_all s as = Inr s' \<Longrightarrow> lastSerial s' = lastSerial s"
proof (induction as arbitrary: s)
  case Nil
  then show ?case by simp
next
  case (Cons a as)
  from Cons.prems obtain s1 where
    i: "inc_refcount s a = Inr s1" and r: "inc_all s1 as = Inr s'"
    by (auto split: sum.splits)
  from i have "lastSerial s1 = lastSerial s"
    by (auto simp add: inc_refcount_def split: if_splits)
  with Cons.IH[OF r] show ?case by simp
qed

lemma released_release_refs:
  "release_refs s xs = Inr s' \<Longrightarrow> released s s'"
proof (induction xs arbitrary: s)
  case Nil
  then show ?case by (simp add: released_refl)
next
  case (Cons x xs)
  from Cons.prems obtain b s1 where
    d: "dec_refcount_and_maybe_notify s b = Inr s1" and r: "release_refs s1 xs = Inr s'"
    by (auto split: sum.splits if_splits)
  from released_dec(1)[OF d] Cons.IH[OF r] show ?case
    by (rule released_trans)
qed

lemma released_release_previous:
  "release_previous s a = Inr s' \<Longrightarrow> released s s'"
  by (auto simp add: release_previous_def released_refl released_release_refs
      split: if_splits option.splits prev_value.splits)

lemma maybesend_reference_update_lastSerial:
  assumes "maybesend_reference_update s a objs registrations is_single = Inr s'"
  shows "lastSerial s' = lastSerial s"
proof (cases "objs_differ (regs s a) objs")
  case False
  with assms show ?thesis
    by (simp add: maybesend_reference_update_def)
next
  case True
  with assms obtain s1 m s3 where
    i: "inc_all s (map snd registrations) = Inr s1" and
    r: "release_previous (send1 False m s1) a = Inr s3" and
    p: "set_previous s3 a (Refs objs) True = Inr s'"
    by (auto simp add: maybesend_reference_update_def Let_def split: sum.splits)
  from released_release_previous[OF r] have "lastSerial s3 = lastSerial s1"
    by (simp add: released_def)
  with inc_all_lastSerial[OF i] set_previous_lastSerial[OF p] show ?thesis
    by simp
qed

lemma maybesend_lastSerial:
  "maybesend s a c u = Inr s' \<Longrightarrow> lastSerial s' = lastSerial s"
  by (auto simp add: maybesend_def set_previous_def split: sum.splits if_splits)

lemma register_new_lastSerial:
  "register_new w s x u = Inr (s1, a) \<Longrightarrow> lastSerial s1 = lastSerial s + 1"
  by (auto simp add: register_new_def Let_def set_previous_def split: if_splits)

lemma lastSerial_grows:
  "lookup_or_register n e s x u = Inr (s', a) \<Longrightarrow> lastSerial s \<le> lastSerial s'"
  "call_send_now_if_needed n e s b = Inr s' \<Longrightarrow> lastSerial s \<le> lastSerial s'"
  "listen_cell n e s b = Inr s' \<Longrightarrow> lastSerial s \<le> lastSerial s'"
  "listen_state n e s b st = Inr s' \<Longrightarrow> lastSerial s \<le> lastSerial s'"
  "maybesend_reference n e s b objs is_single = Inr s' \<Longrightarrow> lastSerial s \<le> lastSerial s'"
  "register_all n e s u kvs = Inr (s', rs) \<Longrightarrow> lastSerial s \<le> lastSerial s'"
proof (induction n e s x u and n e s b and n e s b and n e s b st and n e s b objs is_single
    and n e s u kvs arbitrary: s' a and s' and s' and s' and s' and s' rs
    rule: lookup_or_register_call_send_now_if_needed_listen_cell_listen_state_maybesend_reference_register_all.induct)
  case (1 e s x u)
  then show ?case by (auto simp add: registration_simps split: if_splits sum.splits)
next
  case (2 n e s x u)
  show ?case
  proof (cases "dict_contains (registered_objs s) x")
    case True
    with "2.prems" show ?thesis by (auto simp add: registration_simps split: sum.splits)
  next
    case False
    with "2.prems" obtain s1 k where
      r: "register_new (objects e) s x u = Inr (s1, k)" and
      h: "call_send_now_if_needed n e s1 k = Inr s'"
      by (auto simp add: registration_simps split: sum.splits)
    from "2.IH"[OF False r refl h] register_new_lastSerial[OF r] show ?thesis
      by simp
  qed
next
  case (3 n e s a)
  then show ?case by (auto simp add: registration_simps split: hook.splits)
next
  case (4 n e s a)
  show ?case
  proof (cases "dead (regs s a)")
    case True
    with "4.prems" show ?thesis by (simp add: registration_simps)
  next
    case live: False
    show ?thesis
    proof (cases "is_StreamCell (objects e (obj (regs s a)))")
      case True
      with live "4.prems" show ?thesis by (simp add: registration_simps)
    next
      case ns: False
      show ?thesis
      proof (cases "isBlock (objects e (obj (regs s a)))")
        case False
        with live ns "4.prems" show ?thesis
          by (simp add: registration_simps maybesend_lastSerial)
      next
        case True
        with live ns "4.prems" obtain s1 b where
          l: "lookup_or_register n e s (get_block (objects e (obj (regs s a))))
                (url (regs s a)) = Inr (s1, b)" and
          m: "maybesend_reference n e s1 a
                [(''value'', get_block (objects e (obj (regs s a))))] True = Inr s'"
          by (auto simp add: registration_simps split: sum.splits)
        from "4.IH"(1)[OF live ns True l] "4.IH"(2)[OF live ns True l refl m]
        show ?thesis by simp
      qed
    qed
  qed
next
  case (5 n e s a st)
  then show ?case by (auto simp add: registration_simps split: if_splits)
next
  case (6 n e s a objs is_single)
  from "6.prems" obtain s1 registrations where
    r: "register_all n e s (url (regs s a)) objs = Inr (s1, registrations)" and
    u: "maybesend_reference_update s1 a objs registrations is_single = Inr s'"
    by (auto simp add: registration_simps split: sum.splits)
  from "6.IH"[OF r] maybesend_reference_update_lastSerial[OF u] show ?case
    by simp
next
  case (7 n e s u)
  then show ?case by simp
next
  case (8 n e s u k v kvs)
  from "8.prems" obtain s1 a1 s2 rest where
    l: "lookup_or_register n e s v (u @ ''/'' @ unquote e k) = Inr (s1, a1)" and
    r: "register_all n e s1 u kvs = Inr (s2, rest)" and
    e: "s' = s2"
    by (auto split: sum.splits)
  from "8.IH"(1)[OF l] "8.IH"(2)[OF l refl r] e show ?case
    by simp
qed

subsection \<open>The contract of \<^verbatim>\<open>_lookup_or_register\<close>\<close>

lemma lookup_or_register_registered:
  assumes "map_of (registered_objs s) x = Some a"
  shows "lookup_or_register n e s x u = Inr (s, a)"
  using assms by (cases n) (simp_all add: registration_simps dict_contains_def dict_get_def)

lemma register_new_hook_free:
  assumes "is_BaseCell (w x)"
    and "is_StreamCell (w x)
         \<or> (\<not> isBlock (w x) \<and> py_eq (get_value (w x)) (get_value (w x)))"
    and "objects e = w" and "register_new w s x u = Inr (s1, k)"
  shows "call_send_now_if_needed n e s1 k = Inr s1"
proof (cases "is_StreamCell (w x)")
  case True
  with assms(1,4) have "send_now_if_needed (regs s1 k) = HookNothing"
    by (auto simp add: register_new_def Let_def new_registration_def regs_send1)
  then show ?thesis by (simp add: registration_simps)
next
  case False
  with assms(2) have nb: "\<not> isBlock (w x)"
    and self: "py_eq (get_value (w x)) (get_value (w x))" by simp_all
  let ?k = "lastSerial s + 1"
  let ?s5 = "send1 False (RegisterCell ?k u (description (w x)))
     (s\<lparr>lastSerial := ?k, regs := (regs s)(?k := new_registration w x ?k u 0),
        registered_objs := dict_set (registered_objs s) x ?k,
        registered_serials := dict_set (registered_serials s) ?k ?k\<rparr>)"
  from assms(1,4) False nb have k: "k = ?k" and
    s1: "s1 = upd_reg ?s5 ?k (\<lambda>r. r\<lparr>has_previous_value := True,
            previous_value := Some (Scalars [(''value'', get_value (w x))]),
            value_is_references := False\<rparr>)"
    by (auto simp add: register_new_def Let_def set_previous_def)
  have r: "regs s1 k = (new_registration w x ?k u 0)\<lparr>has_previous_value := True,
            previous_value := Some (Scalars [(''value'', get_value (w x))]),
            value_is_references := False\<rparr>"
    unfolding s1 k by (simp add: regs_upd_reg regs_send1)
  have "maybesend s1 k (get_value (w x)) (get_value (w x)) = Inr s1"
    by (rule maybesend_same[where pv = "Scalars [(''value'', get_value (w x))]"
          and old = "Val (get_value (w x))"])
      (simp_all add: r self)
  with assms(1,3) False nb show ?thesis
    by (simp add: registration_simps r new_registration_def)
qed

text \<open>A new scalar cell whose value is unequal to itself has the value sent by the hook.\<close>

lemma register_new_hook_unequal:
  assumes "is_BaseCell (w x)" and "\<not> is_StreamCell (w x)" and "\<not> isBlock (w x)"
    and "\<not> py_eq (get_value (w x)) (get_value (w x))"
    and "objects e = w" and "register_new w s x u = Inr (s1, k)"
  shows "call_send_now_if_needed n e s1 k =
           Inr (send1 False (Value (lastSerial s + 1) (get_value (w x))) s1)"
proof -
  let ?k = "lastSerial s + 1"
  let ?f = "\<lambda>r. r\<lparr>has_previous_value := True,
            previous_value := Some (Scalars [(''value'', get_value (w x))]),
            value_is_references := False\<rparr>"
  let ?s5 = "send1 False (RegisterCell ?k u (description (w x)))
     (s\<lparr>lastSerial := ?k, regs := (regs s)(?k := new_registration w x ?k u 0),
        registered_objs := dict_set (registered_objs s) x ?k,
        registered_serials := dict_set (registered_serials s) ?k ?k\<rparr>)"
  from assms(1,2,3,6) have k: "k = ?k" and s1: "s1 = upd_reg ?s5 ?k ?f"
    by (auto simp add: register_new_def Let_def set_previous_def)
  have r: "regs s1 k = ?f (new_registration w x ?k u 0)"
    unfolding s1 k by (simp add: regs_upd_reg regs_send1)
  have idem: "upd_reg s1 k ?f = s1"
    unfolding s1 k by (simp add: upd_reg_def)
  have "maybesend s1 k (get_value (w x)) (get_value (w x)) =
          Inr (send1 False (Value (serial (regs s1 k)) (get_value (w x))) (upd_reg s1 k ?f))"
    by (rule maybesend_changed[where pv = "Scalars [(''value'', get_value (w x))]"
          and old = "Val (get_value (w x))"])
      (simp_all add: r assms(4))
  then have "maybesend s1 k (get_value (w x)) (get_value (w x)) =
          Inr (send1 False (Value ?k (get_value (w x))) s1)"
    unfolding idem by (simp add: r new_registration_def)
  with assms(1,2,3,5) show ?thesis
    by (simp add: registration_simps r new_registration_def)
qed

text \<open>
  C2. For an object the object table holds, \<^verbatim>\<open>_lookup_or_register\<close> returns the
  registration found there and the session as it was: no count has changed and nothing was
  batched. For any other object it takes the serial after the last one, stores a registration
  with that serial, the object, the url, reference count 0 and not dead, leaves every other
  registration alone, enters it in both tables, appends one message to the batch
  (\<^verbatim>\<open>register_cell\<close> for a cell, \<^verbatim>\<open>register_block\<close> for another exported state,
  \<^verbatim>\<open>register\<close> otherwise), sends nothing, and then calls the registration's
  \<^verbatim>\<open>send_now_if_needed\<close> on the session so changed: what it returns is that call's
  session and the new registration, or that call's failure. The serial counter never goes
  back, so the serial is not given again. For a stream cell, and for a scalar cell whose
  value equals itself, the call changes nothing and the registration returns at once; a
  scalar cell whose value is unequal to itself (a float that is not-a-number) has the value
  batched by the call after the \<^verbatim>\<open>register_cell\<close> message.
\<close>

theorem lookup_or_register_contract:
  "(\<forall>a. map_of (registered_objs s) x = Some a \<longrightarrow> lookup_or_register n e s x u = Inr (s, a))
   \<and> (map_of (registered_objs s) x = None \<longrightarrow>
        (\<exists>s1. lastSerial s1 = lastSerial s + 1
           \<and> obj (regs s1 (lastSerial s + 1)) = x
           \<and> serial (regs s1 (lastSerial s + 1)) = lastSerial s + 1
           \<and> url (regs s1 (lastSerial s + 1)) = u
           \<and> refcount (regs s1 (lastSerial s + 1)) = 0
           \<and> \<not> dead (regs s1 (lastSerial s + 1))
           \<and> (\<forall>b. b \<noteq> lastSerial s + 1 \<longrightarrow> regs s1 b = regs s b)
           \<and> registered_objs s1 = registered_objs s @ [(x, lastSerial s + 1)]
           \<and> map_of (registered_serials s1) =
               (map_of (registered_serials s))(lastSerial s + 1 \<mapsto> lastSerial s + 1)
           \<and> send_batch s1 = send_batch s @
               [if is_BaseCell (objects e x)
                then RegisterCell (lastSerial s + 1) u (description (objects e x))
                else if is_ExportedState (objects e x)
                then RegisterBlock (lastSerial s + 1) u (interfaces (objects e x))
                else Register (lastSerial s + 1) u]
           \<and> sent s1 = sent s
           \<and> lookup_or_register (Suc n) e s x u =
               (case call_send_now_if_needed n e s1 (lastSerial s + 1) of
                  Inl err \<Rightarrow> Inl err
                | Inr s2 \<Rightarrow> Inr (s2, lastSerial s + 1))
           \<and> (\<forall>s2 a. lookup_or_register (Suc n) e s x u = Inr (s2, a) \<longrightarrow>
                 a = lastSerial s + 1 \<and> lastSerial s < lastSerial s2)
           \<and> (is_BaseCell (objects e x)
                \<and> (is_StreamCell (objects e x)
                     \<or> (\<not> isBlock (objects e x)
                         \<and> py_eq (get_value (objects e x)) (get_value (objects e x)))) \<longrightarrow>
               lookup_or_register (Suc n) e s x u = Inr (s1, lastSerial s + 1))
           \<and> (is_BaseCell (objects e x) \<and> \<not> is_StreamCell (objects e x)
                \<and> \<not> isBlock (objects e x)
                \<and> \<not> py_eq (get_value (objects e x)) (get_value (objects e x)) \<longrightarrow>
               lookup_or_register (Suc n) e s x u =
                 Inr (send1 False (Value (lastSerial s + 1) (get_value (objects e x))) s1,
                      lastSerial s + 1))))"
proof (intro conjI allI impI)
  fix a assume "map_of (registered_objs s) x = Some a"
  then show "lookup_or_register n e s x u = Inr (s, a)"
    by (rule lookup_or_register_registered)
next
  assume none: "map_of (registered_objs s) x = None"
  then have nc: "\<not> dict_contains (registered_objs s) x"
    by (simp add: dict_contains_def)
  let ?k = "lastSerial s + 1"
  from register_new_result[OF nc, of "objects e" u] obtain s1 where
    r: "register_new (objects e) s x u = Inr (s1, ?k)" and
    props: "lastSerial s1 = ?k" "obj (regs s1 ?k) = x" "serial (regs s1 ?k) = ?k"
      "url (regs s1 ?k) = u" "refcount (regs s1 ?k) = 0" "\<not> dead (regs s1 ?k)"
      "\<forall>b. b \<noteq> ?k \<longrightarrow> regs s1 b = regs s b"
      "registered_objs s1 = registered_objs s @ [(x, ?k)]"
      "map_of (registered_serials s1) = (map_of (registered_serials s))(?k \<mapsto> ?k)"
      "send_batch s1 = send_batch s @
               [if is_BaseCell (objects e x)
                then RegisterCell ?k u (description (objects e x))
                else if is_ExportedState (objects e x)
                then RegisterBlock ?k u (interfaces (objects e x))
                else Register ?k u]"
      "sent s1 = sent s"
    by blast
  have eq: "lookup_or_register (Suc n) e s x u =
               (case call_send_now_if_needed n e s1 ?k of
                  Inl err \<Rightarrow> Inl err
                | Inr s2 \<Rightarrow> Inr (s2, ?k))"
    using nc r by (simp add: lookup_or_register.simps split: sum.splits)
  have fresh: "a = ?k \<and> lastSerial s < lastSerial s2"
    if l: "lookup_or_register (Suc n) e s x u = Inr (s2, a)" for s2 a
  proof -
    from l eq obtain h: "call_send_now_if_needed n e s1 ?k = Inr s2" and a: "a = ?k"
      by (auto split: sum.splits)
    from lastSerial_grows(2)[OF h] props(1) a show ?thesis by simp
  qed
  have free: "lookup_or_register (Suc n) e s x u = Inr (s1, ?k)"
    if "is_BaseCell (objects e x)
        \<and> (is_StreamCell (objects e x)
             \<or> (\<not> isBlock (objects e x)
                 \<and> py_eq (get_value (objects e x)) (get_value (objects e x))))"
  proof -
    from that register_new_hook_free[OF _ _ refl r, of n]
    have "call_send_now_if_needed n e s1 ?k = Inr s1" by blast
    with eq show ?thesis by simp
  qed
  have unequal: "lookup_or_register (Suc n) e s x u =
      Inr (send1 False (Value ?k (get_value (objects e x))) s1, ?k)"
    if "is_BaseCell (objects e x) \<and> \<not> is_StreamCell (objects e x)
        \<and> \<not> isBlock (objects e x)
        \<and> \<not> py_eq (get_value (objects e x)) (get_value (objects e x))"
  proof -
    from that register_new_hook_unequal[OF _ _ _ _ refl r, of n]
    have "call_send_now_if_needed n e s1 ?k =
            Inr (send1 False (Value ?k (get_value (objects e x))) s1)" by blast
    with eq show ?thesis by simp
  qed
  from props eq fresh free unequal
  show "\<exists>s1. lastSerial s1 = lastSerial s + 1
           \<and> obj (regs s1 (lastSerial s + 1)) = x
           \<and> serial (regs s1 (lastSerial s + 1)) = lastSerial s + 1
           \<and> url (regs s1 (lastSerial s + 1)) = u
           \<and> refcount (regs s1 (lastSerial s + 1)) = 0
           \<and> \<not> dead (regs s1 (lastSerial s + 1))
           \<and> (\<forall>b. b \<noteq> lastSerial s + 1 \<longrightarrow> regs s1 b = regs s b)
           \<and> registered_objs s1 = registered_objs s @ [(x, lastSerial s + 1)]
           \<and> map_of (registered_serials s1) =
               (map_of (registered_serials s))(lastSerial s + 1 \<mapsto> lastSerial s + 1)
           \<and> send_batch s1 = send_batch s @
               [if is_BaseCell (objects e x)
                then RegisterCell (lastSerial s + 1) u (description (objects e x))
                else if is_ExportedState (objects e x)
                then RegisterBlock (lastSerial s + 1) u (interfaces (objects e x))
                else Register (lastSerial s + 1) u]
           \<and> sent s1 = sent s
           \<and> lookup_or_register (Suc n) e s x u =
               (case call_send_now_if_needed n e s1 (lastSerial s + 1) of
                  Inl err \<Rightarrow> Inl err
                | Inr s2 \<Rightarrow> Inr (s2, lastSerial s + 1))
           \<and> (\<forall>s2 a. lookup_or_register (Suc n) e s x u = Inr (s2, a) \<longrightarrow>
                 a = lastSerial s + 1 \<and> lastSerial s < lastSerial s2)
           \<and> (is_BaseCell (objects e x)
                \<and> (is_StreamCell (objects e x)
                     \<or> (\<not> isBlock (objects e x)
                         \<and> py_eq (get_value (objects e x)) (get_value (objects e x)))) \<longrightarrow>
               lookup_or_register (Suc n) e s x u = Inr (s1, lastSerial s + 1))
           \<and> (is_BaseCell (objects e x) \<and> \<not> is_StreamCell (objects e x)
                \<and> \<not> isBlock (objects e x)
                \<and> \<not> py_eq (get_value (objects e x)) (get_value (objects e x)) \<longrightarrow>
               lookup_or_register (Suc n) e s x u =
                 Inr (send1 False (Value (lastSerial s + 1) (get_value (objects e x))) s1,
                      lastSerial s + 1))"
    by (intro exI[of _ s1]) blast
qed

theorem lookup_or_register_contract_witness:
  "lookup_or_register 0 example_env example_cell_session 5 ''/r/x'' =
     Inr (example_cell_session, 1)
   \<and> map_of (registered_objs example_cell_session) 10 = None
   \<and> (\<exists>s2. lookup_or_register (Suc (Suc 0)) example_env example_cell_session 10 ''/r'' =
          Inr (s2, 2)
        \<and> send_batch s2 =
            [RegisterBlock 2 ''/r'' [''shinysdr.top.Top''],
             RegisterCell 3 ''/r/b'' (JStr ''cell''),
             RegisterCell 4 ''/r/a'' (JStr ''cell''),
             ValueSerials 2 [(''b'', 3), (''a'', 4)]]
        \<and> registered_objs s2 = [(5, 1), (10, 2), (30, 3), (20, 4)]
        \<and> refcount (regs s2 2) = 0 \<and> refcount (regs s2 3) = 1 \<and> refcount (regs s2 4) = 1
        \<and> lastSerial s2 = 4)"
  using lookup_or_register_contract
    [where s = example_cell_session and x = 5 and n = 0 and e = example_env and u = "''/r/x''"]
    lookup_or_register_contract
    [where s = example_cell_session and x = 10 and n = "Suc 0" and e = example_env
       and u = "''/r''"]
  by (simp add: example_simps evaluation_simps)

section \<open>Inbound commands\<close>

text \<open>
  C4. Of the malformed commands only the unknown operation is logged and ignored. A
  \<^verbatim>\<open>set\<close> for the serial 99, which the session does not know, ends \<^verbatim>\<open>dataReceived\<close>
  with the \<^verbatim>\<open>KeyError\<close> of the serial table; data that is no JSON ends it with the
  \<^verbatim>\<open>ValueError\<close> of \<^verbatim>\<open>json.loads\<close>; a \<^verbatim>\<open>set\<close> for the serial of a block ends it
  with the exception of \<^verbatim>\<open>get_object_which_is_cell\<close>.
\<close>

theorem dataReceived_raises_on_bad_command:
  "dataReceived 1 example_env example_cell_session ''[\"set\",99,1,7]'' = Inl KeyError
   \<and> dataReceived 1 example_env example_cell_session ''{'' = Inl ValueError
   \<and> dataReceived 1 example_env example_block_session ''[\"set\",1,1,7]'' = Inl NotACell
   \<and> dataReceived 1 example_env example_cell_session ''[\"frob\"]'' =
       Inr (example_env,
            example_cell_session\<lparr>log_msgs := [''Unrecognized state stream op received'']\<rparr>)"
  by (simp add: dataReceived_def example_simps dict_get_def get_object_which_is_cell_def)

section \<open>The flush timer\<close>

lemma send1_pending_schedules_nothing:
  assumes "batch_delay s = Some c" and "c \<in> set (reactor_calls s)"
  shows "reactor_calls (send1 False m s) = reactor_calls s"
    and "batch_delay (send1 False m s) = Some c"
  using assms by (simp_all add: send1_def active_def Let_def)

lemma send1_idle_schedules_one:
  assumes "batch_delay s = None \<or> the (batch_delay s) \<notin> set (reactor_calls s)"
  shows "reactor_calls (send1 False m s) = reactor_calls s @ [next_call s]"
    and "batch_delay (send1 False m s) = Some (next_call s)"
  using assms by (auto simp add: send1_def active_def callLater_def Let_def)

lemma flush_keeps_reactor_calls: "reactor_calls (flush s) = reactor_calls s"
  by (simp add: flush_def send_def Let_def)

text \<open>
  C6. A message is batched, which schedules a flush; a binary message is sent, whose
  \<^verbatim>\<open>_flush\<close> forgets the handle of that call without cancelling it; another message is
  batched, and with no handle left a second flush is scheduled: two calls of \<^verbatim>\<open>_flush\<close>
  are pending in the reactor.
\<close>

theorem send1_two_flush_timers_pending:
  "reactor_calls
     (send1 False (Value 1 (JInt 2))
        (send1 True (Bytes 2 [0])
           (send1 False (Value 1 (JInt 1)) example_cell_session))) = [0, 1]"
  by (simp add: send1_def send_def flush_def callLater_def active_def Let_def example_simps)

section \<open>The order of release\<close>

lemma prev_same_refl: "prev_same p p"
  by (cases "(p, p)" rule: prev_same.cases) auto

lemma same_up_to_order_refl: "same_up_to_order s s"
  by (simp add: same_up_to_order_def prev_same_refl)














lemma release_previous_cases:
  "release_previous s a =
     (if has_previous_value (regs s a)
      then (case previous_value (regs s a) of
              None \<Rightarrow> Inl AttributeError
            | Some (Refs d) \<Rightarrow> release_refs s (sort (map snd d))
            | Some (Scalars d) \<Rightarrow> (if d = [] then Inr s else Inl PreviousValueNotRegistered))
      else Inr s)"
  by (simp add: release_previous_def)








subsection \<open>The delete messages of a release\<close>
















subsection \<open>The same value changes on sessions that differ in the order of a dictionary\<close>













section \<open>The change detector and the persistence of the specification\<close>

lemmas persistence_simps =
  PersistenceChangeDetector_def ValueAndBlockSpecimen_def block_snapshot_def set_value_def
  block_set_def advance_def get_def PersistenceFileGlue_def glue_advance_def
  delayed_write_def sync_def glue_set_value_def block_apply_state_def no_defaults_def
  Let_def

text \<open>
  Mutations within one cycle are answered by at most one call of the callback, and by one
  exactly when the snapshot has changed.
\<close>

lemma calls_set_value: "calls (set_value path v d) = calls d"
  by (simp add: set_value_def)

lemma cached_set_value: "cached (set_value path v d) = cached d"
  by (simp add: set_value_def)

lemma calls_after_mutations:
  "calls (fold (\<lambda>m. set_value (fst m) (snd m)) ms d) = calls d"
  by (induction ms arbitrary: d) (simp_all add: calls_set_value)

lemma advance_at_most_one:
  "calls (advance d) = calls d \<or> calls (advance d) = calls d + 1"
  by (simp add: advance_def)

lemma coalesced_notification:
  "calls (advance (fold (\<lambda>m. set_value (fst m) (snd m)) ms d)) \<le> calls d + 1"
  using advance_at_most_one[of "fold (\<lambda>m. set_value (fst m) (snd m)) ms d"]
  by (auto simp add: calls_after_mutations)

text \<open>
  C8. A glue is started with no file over a specimen whose value is \<open>v0\<close>, and the value
  is set to another one, \<open>v\<close>. Waiting for \<^verbatim>\<open>sync()\<close> resolves, and then the file holds
  the snapshot with \<open>v\<close>, so that a new glue over that file and a new specimen brings the
  specimen's value to \<open>v\<close>. Without the wait no write has happened: the file is as it was,
  and a new glue over it leaves a new specimen at \<open>v0\<close>. Whenever the wait resolves, the
  file holds the detector's snapshot and no write is pending.
\<close>

theorem persistence_round_trip_and_delay:
  assumes "v \<noteq> v0"
  shows "root (detector (PersistenceFileGlue None (ValueAndBlockSpecimen [] v0) no_defaults)) =
           ValueAndBlockSpecimen [] v0
       \<and> (\<exists>g2. sync (glue_set_value [''value''] v
                    (PersistenceFileGlue None (ValueAndBlockSpecimen [] v0) no_defaults)) =
                 Some g2
            \<and> state_file g2 = Some (block_snapshot (ValueAndBlockSpecimen [] v))
            \<and> root (detector (PersistenceFileGlue (state_file g2)
                       (ValueAndBlockSpecimen [] v0) no_defaults)) =
                ValueAndBlockSpecimen [] v)
       \<and> state_file (glue_set_value [''value''] v
            (PersistenceFileGlue None (ValueAndBlockSpecimen [] v0) no_defaults)) = None
       \<and> root (detector (PersistenceFileGlue
            (state_file (glue_set_value [''value''] v
               (PersistenceFileGlue None (ValueAndBlockSpecimen [] v0) no_defaults)))
            (ValueAndBlockSpecimen [] v0) no_defaults)) =
           ValueAndBlockSpecimen [] v0
       \<and> (\<forall>g g'. sync g = Some g' \<longrightarrow>
              state_file g' = Some (get (detector g')) \<and> \<not> write_scheduled g')"
  using assms by (auto simp add: persistence_simps split: if_splits)

theorem persistence_round_trip_and_delay_witness:
  "JInt 1 \<noteq> JInt 0
   \<and> (\<exists>g2. sync (glue_set_value [''value''] (JInt 1)
                (PersistenceFileGlue None (ValueAndBlockSpecimen [] (JInt 0)) no_defaults)) =
             Some g2
        \<and> root (detector (PersistenceFileGlue (state_file g2)
                   (ValueAndBlockSpecimen [] (JInt 0)) no_defaults)) =
            ValueAndBlockSpecimen [] (JInt 1))
   \<and> root (detector (PersistenceFileGlue
        (state_file (glue_set_value [''value''] (JInt 1)
           (PersistenceFileGlue None (ValueAndBlockSpecimen [] (JInt 0)) no_defaults)))
        (ValueAndBlockSpecimen [] (JInt 0)) no_defaults)) =
       ValueAndBlockSpecimen [] (JInt 0)"
proof -
  have h: "JInt 1 \<noteq> JInt 0" by simp
  from persistence_round_trip_and_delay[OF h] h show ?thesis by blast
qed

end
